theory Spec2Isabelle
  imports Complex_Main "HOL-Library.AList" "HOL-Library.Multiset"
begin

section \<open>Errors and provider calls\<close>

text \<open>
  The error classes of \<^verbatim>\<open>lib/utils/errors.ts\<close> that the generation pipeline
  throws or inspects, next to the built-in classes of the language. A thrown value is
  its class and its message; \<^verbatim>\<open>instanceof GuardrailViolation\<close> reads the class,
  \<^verbatim>\<open>isRetriableError\<close> reads the message.
\<close>

datatype error_class = JsError | TypeError | SyntaxError | GuardrailViolation | GenerationError

datatype error = Error (error_class: error_class) (message: string)

text \<open>
  \<^verbatim>\<open>chat\<close> of \<^verbatim>\<open>lib/providers/openai.ts\<close>. The answer of the completion service
  is an input of the model: the call throws, or it yields the content of the first
  choice, which may be absent. \<^verbatim>\<open>chat\<close> throws on absent or empty content.
\<close>

datatype completion = ApiThrows error | Completion "string option"

definition chat :: "completion \<Rightarrow> error + string" where
  "chat c =
     (case c of
        ApiThrows e \<Rightarrow> Inl e
      | Completion None \<Rightarrow> Inl (Error JsError ''No content in OpenAI response'')
      | Completion (Some s) \<Rightarrow>
          if s = [] then Inl (Error JsError ''No content in OpenAI response'') else Inr s)"

text \<open>Sequencing of calls that may throw: the first error ends the block.\<close>

definition and_then :: "error + 'a \<Rightarrow> ('a \<Rightarrow> error + 'b) \<Rightarrow> error + 'b" where
  "and_then r f = (case r of Inl e \<Rightarrow> Inl e | Inr x \<Rightarrow> f x)"

section \<open>Plan generator\<close>

text \<open>
  The value \<^verbatim>\<open>JSON.parse\<close> returns. An object is the list of its own properties;
  the planner reads the properties \<^verbatim>\<open>title\<close>, \<^verbatim>\<open>hook\<close>, \<^verbatim>\<open>key_points\<close>,
  \<^verbatim>\<open>framing\<close> and \<^verbatim>\<open>cta\<close> only, none of which an array or a primitive has.
\<close>

datatype json =
    JNull
  | JBool bool
  | JNumber real
  | JString string
  | JArray "json list"
  | JObject "(string \<times> json) list"

fun field :: "json \<Rightarrow> string \<Rightarrow> json option" where
  "field (JObject fs) k = map_of fs k"
| "field _ k = None"

fun truthy :: "json \<Rightarrow> bool" where
  "truthy JNull = False"
| "truthy (JBool b) = b"
| "truthy (JNumber n) = (n \<noteq> 0)"
| "truthy (JString s) = (s \<noteq> [])"
| "truthy (JArray xs) = True"
| "truthy (JObject fs) = True"

fun typeof_object :: "json \<Rightarrow> bool" where
  "typeof_object JNull = True"
| "typeof_object (JArray xs) = True"
| "typeof_object (JObject fs) = True"
| "typeof_object _ = False"

fun nonempty_string :: "json option \<Rightarrow> bool" where
  "nonempty_string (Some (JString s)) = (s \<noteq> [])"
| "nonempty_string _ = False"

fun array_of_at_least :: "nat \<Rightarrow> json option \<Rightarrow> bool" where
  "array_of_at_least n (Some (JArray xs)) = (n \<le> length xs)"
| "array_of_at_least n _ = False"

text \<open>\<^verbatim>\<open>validatePlanStructure\<close> of \<^verbatim>\<open>planner.ts\<close>, check by check.\<close>

definition validatePlanStructure :: "json \<Rightarrow> error + unit" where
  "validatePlanStructure plan =
     (if \<not> truthy plan \<or> \<not> typeof_object plan then
        Inl (Error JsError ''Plan must be an object'')
      else if \<not> nonempty_string (field plan ''title'') then
        Inl (Error JsError ''Plan must have a non-empty title'')
      else if \<not> nonempty_string (field plan ''hook'') then
        Inl (Error JsError ''Plan must have a non-empty hook'')
      else if \<not> array_of_at_least 3 (field plan ''key_points'') then
        Inl (Error JsError ''Plan must have at least 3 key points'')
      else if \<not> nonempty_string (field plan ''framing'') then
        Inl (Error JsError ''Plan must have a non-empty framing'')
      else if \<not> nonempty_string (field plan ''cta'') then
        Inl (Error JsError ''Plan must have a non-empty CTA'')
      else Inr ())"

text \<open>
  The log line between parsing and validation reads \<^verbatim>\<open>plan.title\<close> and
  \<^verbatim>\<open>plan.key_points.length\<close>: a property read on \<^verbatim>\<open>null\<close> or
  \<^verbatim>\<open>undefined\<close> throws a TypeError (the message is the engine's).
\<close>

definition log_generated_plan :: "json \<Rightarrow> error + unit" where
  "log_generated_plan plan =
     (case plan of
        JNull \<Rightarrow> Inl (Error TypeError ''Cannot read properties of null (reading title)'')
      | _ \<Rightarrow>
          (case field plan ''key_points'' of
             None \<Rightarrow> Inl (Error TypeError ''Cannot read properties of undefined (reading length)'')
           | Some JNull \<Rightarrow> Inl (Error TypeError ''Cannot read properties of null (reading length)'')
           | Some _ \<Rightarrow> Inr ()))"

text \<open>
  \<^verbatim>\<open>generateTakeawayPlan\<close>. \<^verbatim>\<open>JSON.parse\<close> is a parameter (it returns the parsed
  value or throws a SyntaxError). Whatever is thrown inside the \<^verbatim>\<open>try\<close> block is
  rethrown as a plain \<^verbatim>\<open>Error\<close> with a prefixed message.
\<close>

definition generateTakeawayPlan :: "(string \<Rightarrow> error + json) \<Rightarrow> completion \<Rightarrow> error + json" where
  "generateTakeawayPlan parse c =
     (case and_then (chat c) (\<lambda>content.
           and_then (parse content) (\<lambda>plan.
           and_then (log_generated_plan plan) (\<lambda>_.
           and_then (validatePlanStructure plan) (\<lambda>_. Inr plan)))) of
        Inl e \<Rightarrow> Inl (Error JsError (''Failed to generate takeaway plan: '' @ message e))
      | Inr plan \<Rightarrow> Inr plan)"

text \<open>
  The structural invariant the spec gives for a plan (all five fields present and
  non-empty, three to five key points, a title of at most 60 characters), and the part
  of it that the code checks.
\<close>

fun string_of_at_most :: "nat \<Rightarrow> json option \<Rightarrow> bool" where
  "string_of_at_most n (Some (JString s)) = (length s \<le> n)"
| "string_of_at_most n _ = False"

fun array_of_at_most :: "nat \<Rightarrow> json option \<Rightarrow> bool" where
  "array_of_at_most n (Some (JArray xs)) = (length xs \<le> n)"
| "array_of_at_most n _ = False"

definition checked_plan_invariant :: "json \<Rightarrow> bool" where
  "checked_plan_invariant plan \<longleftrightarrow>
     nonempty_string (field plan ''title'') \<and>
     nonempty_string (field plan ''hook'') \<and>
     array_of_at_least 3 (field plan ''key_points'') \<and>
     nonempty_string (field plan ''framing'') \<and>
     nonempty_string (field plan ''cta'')"

definition spec_plan_invariant :: "json \<Rightarrow> bool" where
  "spec_plan_invariant plan \<longleftrightarrow>
     checked_plan_invariant plan \<and>
     string_of_at_most 60 (field plan ''title'') \<and>
     array_of_at_most 5 (field plan ''key_points'')"

definition key_points_count :: "json \<Rightarrow> nat option" where
  "key_points_count plan =
     (case field plan ''key_points'' of Some (JArray ks) \<Rightarrow> Some (length ks) | _ \<Rightarrow> None)"

text \<open>A parser that yields a fixed value, and a plan with six key points and a
  title of 61 characters, for the examples below.\<close>

definition parse_to :: "json \<Rightarrow> string \<Rightarrow> error + json" where
  "parse_to j s = Inr j"

definition wide_plan :: json where
  "wide_plan = JObject
     [(''title'', JString (replicate 61 (CHR ''a''))),
      (''hook'', JString ''h''),
      (''key_points'', JArray [JString ''1'', JString ''2'', JString ''3'',
                               JString ''4'', JString ''5'', JString ''6'']),
      (''framing'', JString ''f''),
      (''cta'', JString ''c'')]"

definition short_plan :: json where
  "short_plan = JObject
     [(''title'', JString ''t''),
      (''hook'', JString ''h''),
      (''key_points'', JArray [JString ''1'', JString ''2'']),
      (''framing'', JString ''f''),
      (''cta'', JString ''c'')]"

section \<open>Regular expressions\<close>

text \<open>
  The patterns of \<^verbatim>\<open>PROHIBITED_PATTERNS\<close> and of \<^verbatim>\<open>isRetriableError\<close> are
  regular expressions with the flag \<^verbatim>\<open>i\<close> and without the flags \<^verbatim>\<open>g\<close> and
  \<^verbatim>\<open>u\<close>, so \<^verbatim>\<open>test\<close> is a stateless search for a match starting anywhere
  in the text. A string is the list of its code units; the model covers the code units
  below 256. Without \<^verbatim>\<open>u\<close>, a letter of the pattern matches its two ASCII cases
  only, \<^verbatim>\<open>\d\<close> is \<^verbatim>\<open>[0-9]\<close> and \<^verbatim>\<open>\w\<close> is \<^verbatim>\<open>[A-Za-z0-9_]\<close>.
\<close>

definition is_digit :: "char \<Rightarrow> bool" where
  "is_digit c \<longleftrightarrow> (48::nat) \<le> of_char c \<and> of_char c \<le> (57::nat)"

definition is_space :: "char \<Rightarrow> bool" where
  "is_space c \<longleftrightarrow> (of_char c :: nat) \<in> {9, 10, 11, 12, 13, 32, 160}"

definition is_word :: "char \<Rightarrow> bool" where
  "is_word c \<longleftrightarrow>
     (let n = (of_char c :: nat) in
      (48 \<le> n \<and> n \<le> 57) \<or> (65 \<le> n \<and> n \<le> 90) \<or> (97 \<le> n \<and> n \<le> 122) \<or> n = 95)"

definition canonicalize :: "char \<Rightarrow> nat" where
  "canonicalize c =
     (let n = (of_char c :: nat) in if 97 \<le> n \<and> n \<le> 122 then n - 32 else n)"

datatype cclass = Lit char | Digit | Space | OneOf string | Range char char

fun in_class :: "cclass \<Rightarrow> char \<Rightarrow> bool" where
  "in_class (Lit l) c = (canonicalize c = canonicalize l)"
| "in_class Digit c = is_digit c"
| "in_class Space c = is_space c"
| "in_class (OneOf ls) c = (canonicalize c \<in> canonicalize ` set ls)"
| "in_class (Range lo hi) c = ((of_char lo :: nat) \<le> of_char c \<and> (of_char c :: nat) \<le> of_char hi)"

datatype regex =
    Eps
  | Chr cclass
  | Seq regex regex
  | Alt regex regex
  | Opt regex
  | Star cclass
  | WordB

text \<open>
  \<open>rmatch r p s\<close> lists every way \<open>r\<close> can match a prefix of \<open>s\<close>, as the
  rest of the text after the match together with the character before that rest
  (\<open>p\<close> is the character before \<open>s\<close>; the word boundary reads it).
\<close>

fun rmatch :: "regex \<Rightarrow> char option \<Rightarrow> string \<Rightarrow> (char option \<times> string) list" where
  "rmatch Eps p s = [(p, s)]"
| "rmatch (Chr cl) p [] = []"
| "rmatch (Chr cl) p (c # t) = (if in_class cl c then [(Some c, t)] else [])"
| "rmatch (Seq r1 r2) p s = concat (map (\<lambda>(p', s'). rmatch r2 p' s') (rmatch r1 p s))"
| "rmatch (Alt r1 r2) p s = rmatch r1 p s @ rmatch r2 p s"
| "rmatch (Opt r) p s = rmatch r p s @ [(p, s)]"
| "rmatch (Star cl) p [] = [(p, [])]"
| "rmatch (Star cl) p (c # t) =
     (if in_class cl c then rmatch (Star cl) (Some c) t else []) @ [(p, c # t)]"
| "rmatch WordB p s =
     (if (case p of None \<Rightarrow> False | Some c \<Rightarrow> is_word c) \<noteq>
         (case s of [] \<Rightarrow> False | c # _ \<Rightarrow> is_word c)
      then [(p, s)] else [])"

fun search :: "regex \<Rightarrow> char option \<Rightarrow> string \<Rightarrow> bool" where
  "search r p [] = (rmatch r p [] \<noteq> [])"
| "search r p (c # t) = (rmatch r p (c # t) \<noteq> [] \<or> search r (Some c) t)"

definition test :: "regex \<Rightarrow> string \<Rightarrow> bool" where
  "test r s = search r None s"

fun str :: "string \<Rightarrow> regex" where
  "str [] = Eps"
| "str (c # cs) = Seq (Chr (Lit c)) (str cs)"

fun cat :: "regex list \<Rightarrow> regex" where
  "cat [] = Eps"
| "cat (r # rs) = Seq r (cat rs)"

text \<open>
  \<^verbatim>\<open>PROHIBITED_PATTERNS\<close> of \<^verbatim>\<open>lib/utils/constants.ts\<close>, in the order of the
  source: \<^verbatim>\<open>/\$\d+(?:\.\d{1,2})?[KMB]/i\<close>, \<^verbatim>\<open>/Q[1-4]\s*(?:20|FY)\d{2}/i\<close>,
  \<^verbatim>\<open>/\b(?:competitor|versus|vs\.?|compared to)\b/i\<close>,
  \<^verbatim>\<open>/\b(?:coming soon|roadmap|future release|will launch|planning to)\b/i\<close> and
  \<^verbatim>\<open>/\b(?:guaranteed|promise|ensure)\b/i\<close>.
\<close>

definition PROHIBITED_PATTERNS :: "(regex \<times> string) list" where
  "PROHIBITED_PATTERNS =
    [(cat [Chr (Lit (CHR ''$'')), Chr Digit, Star Digit,
           Opt (cat [Chr (Lit (CHR ''.'')), Chr Digit, Opt (Chr Digit)]),
           Chr (OneOf ''KMB'')],
      ''Financial figures''),
     (cat [Chr (Lit (CHR ''Q'')), Chr (Range (CHR ''1'') (CHR ''4'')), Star Space,
           Alt (str ''20'') (str ''FY''), Chr Digit, Chr Digit],
      ''Quarterly projections''),
     (cat [WordB,
           Alt (str ''competitor'') (Alt (str ''versus'')
             (Alt (Seq (str ''vs'') (Opt (Chr (Lit (CHR ''.''))))) (str ''compared to''))),
           WordB],
      ''Competitor mentions''),
     (cat [WordB,
           Alt (str ''coming soon'') (Alt (str ''roadmap'') (Alt (str ''future release'')
             (Alt (str ''will launch'') (str ''planning to'')))),
           WordB],
      ''Forward-looking statements''),
     (cat [WordB,
           Alt (str ''guaranteed'') (Alt (str ''promise'') (str ''ensure'')),
           WordB],
      ''Guarantees'')]"

section \<open>Retry classification\<close>

text \<open>\<^verbatim>\<open>isRetriableError\<close> of \<^verbatim>\<open>lib/utils/retry.ts\<close> and \<^verbatim>\<open>MAX_RETRIES\<close>.\<close>

definition retriablePatterns :: "regex list" where
  "retriablePatterns =
     [str ''timeout'', str ''ECONNRESET'', str ''ECONNREFUSED'', str ''rate limit'',
      str ''too many requests'', str ''503'', str ''502'', str ''500'', str ''network'',
      str ''temporarily unavailable'']"

fun error_name :: "error_class \<Rightarrow> string" where
  "error_name JsError = ''Error''"
| "error_name TypeError = ''TypeError''"
| "error_name SyntaxError = ''SyntaxError''"
| "error_name GuardrailViolation = ''GuardrailViolation''"
| "error_name GenerationError = ''GenerationError''"

definition isRetriableError :: "error \<Rightarrow> bool" where
  "isRetriableError e =
     (let errorMessage = (if message e \<noteq> [] then message e else error_name (error_class e))
      in list_ex (\<lambda>pattern. test pattern errorMessage) retriablePatterns)"

definition MAX_RETRIES :: int where
  "MAX_RETRIES = 3"

section \<open>Policy guardrail\<close>

definition trim :: "string \<Rightarrow> string" where
  "trim s = rev (dropWhile is_space (rev (dropWhile is_space s)))"

definition starts_with :: "string \<Rightarrow> string \<Rightarrow> bool" where
  "starts_with p s \<longleftrightarrow> take (length p) s = p"

text \<open>\<^verbatim>\<open>String.prototype.replace\<close> with a string pattern: the first occurrence.\<close>

fun replace_first :: "string \<Rightarrow> string \<Rightarrow> string \<Rightarrow> string" where
  "replace_first pat rep [] = (if pat = [] then rep else [])"
| "replace_first pat rep (c # t) =
     (if starts_with pat (c # t) then rep @ drop (length pat) (c # t)
      else c # replace_first pat rep t)"

definition or_default :: "string \<Rightarrow> string \<Rightarrow> string" where
  "or_default s d = (if s = [] then d else s)"

text \<open>
  The \<^verbatim>\<open>catch\<close> block shared by the three validators: a
  \<^verbatim>\<open>GuardrailViolation\<close> is rethrown, anything else is logged and dropped.
\<close>

definition fail_open :: "error + unit \<Rightarrow> error + unit" where
  "fail_open r =
     (case r of
        Inl e \<Rightarrow> if error_class e = GuardrailViolation then Inl e else Inr ()
      | Inr u \<Rightarrow> Inr u)"

text \<open>
  \<^verbatim>\<open>validateExtraInstruction\<close>. The classifier is the completion service as a
  function of the user message.
\<close>

definition validateExtraInstruction :: "(string \<Rightarrow> completion) \<Rightarrow> string option \<Rightarrow> error + unit" where
  "validateExtraInstruction classifier instruction =
     (case instruction of
        None \<Rightarrow> Inr ()
      | Some i \<Rightarrow>
          if i = [] \<or> trim i = [] then Inr ()
          else fail_open
            (and_then (chat (classifier i)) (\<lambda>content.
               let result = trim content in
               if starts_with ''BLOCKED'' result then
                 Inl (Error GuardrailViolation
                        (or_default (trim (replace_first ''BLOCKED:'' [] result))
                                    ''Instruction violates content policy''))
               else Inr ())))"

text \<open>The loop over \<^verbatim>\<open>PROHIBITED_PATTERNS\<close>: the first pattern that matches throws.\<close>

fun check_patterns :: "string \<Rightarrow> (regex \<times> string) list \<Rightarrow> string \<Rightarrow> error + unit" where
  "check_patterns what [] text = Inr ()"
| "check_patterns what ((pattern, description) # rest) text =
     (if test pattern text then
        Inl (Error GuardrailViolation (what @ '' contains prohibited content: '' @ description))
      else check_patterns what rest text)"

definition llm_verdict :: "completion \<Rightarrow> error + unit" where
  "llm_verdict c =
     fail_open
       (and_then (chat c) (\<lambda>content.
          let result = trim content in
          if starts_with ''VIOLATION'' result then
            Inl (Error GuardrailViolation
                   (or_default (trim (replace_first ''VIOLATION:'' [] result))
                               ''Content policy violation''))
          else Inr ()))"

text \<open>
  \<^verbatim>\<open>validatePlan\<close> and \<^verbatim>\<open>validateScript\<close>: the pattern loop, then the
  validator call inside \<^verbatim>\<open>try\<close>/\<^verbatim>\<open>catch\<close>. \<^verbatim>\<open>JSON.stringify\<close> is a
  parameter. The script validator sees the first 2000 code units.
\<close>

definition validatePlan :: "(json \<Rightarrow> string) \<Rightarrow> (string \<Rightarrow> completion) \<Rightarrow> json \<Rightarrow> error + unit" where
  "validatePlan stringify validator plan =
     (let planText = stringify plan in
      and_then (check_patterns ''Plan'' PROHIBITED_PATTERNS planText) (\<lambda>_.
        llm_verdict (validator planText)))"

definition validateScript :: "(string \<Rightarrow> completion) \<Rightarrow> string \<Rightarrow> error + unit" where
  "validateScript validator script =
     and_then (check_patterns ''Script'' PROHIBITED_PATTERNS script) (\<lambda>_.
       llm_verdict (validator (take 2000 script)))"

definition matches_any :: "string \<Rightarrow> bool" where
  "matches_any text \<longleftrightarrow> list_ex (\<lambda>(pattern, description). test pattern text) PROHIBITED_PATTERNS"

section \<open>Context retriever\<close>

record RAGChunk =
  chunk_id :: string
  transcript_id :: string
  theme :: string
  content :: string
  token_count :: int
  similarity :: real

record RAGContext =
  chunks :: "RAGChunk list"
  query :: string
  total_tokens :: int

text \<open>
  \<^verbatim>\<open>diversifyByTheme\<close> groups the chunks in an object literal,
  \<^verbatim>\<open>themeGroups: Record<string, RAGChunk[]> = {}\<close>. An object is the list of its own
  properties in insertion order. Reading a property that the object does not own
  falls through to \<^verbatim>\<open>Object.prototype\<close>, whose members
  (\<^verbatim>\<open>constructor\<close>, \<^verbatim>\<open>toString\<close>, ...) are functions or objects, hence truthy
  and without a \<^verbatim>\<open>push\<close> method. \<^verbatim>\<open>Object.keys\<close> lists the own keys that are
  array indices (canonical decimal numerals up to \<open>2\<^sup>3\<^sup>2 - 2\<close>) first, in ascending
  numeric order, and the other keys after them in insertion order.
\<close>

definition object_prototype_keys :: "string list" where
  "object_prototype_keys =
     [''constructor'', ''__defineGetter__'', ''__defineSetter__'', ''hasOwnProperty'',
      ''__lookupGetter__'', ''__lookupSetter__'', ''isPrototypeOf'', ''propertyIsEnumerable'',
      ''toString'', ''valueOf'', ''__proto__'', ''toLocaleString'']"

datatype 'a property = Undefined | Inherited | Own 'a

definition get_property :: "(string \<times> 'a) list \<Rightarrow> string \<Rightarrow> 'a property" where
  "get_property obj k =
     (case map_of obj k of
        Some v \<Rightarrow> Own v
      | None \<Rightarrow> if k \<in> set object_prototype_keys then Inherited else Undefined)"

definition decimal_value :: "string \<Rightarrow> nat" where
  "decimal_value s = foldl (\<lambda>n c. 10 * n + (of_char c - 48)) 0 s"

definition is_array_index :: "string \<Rightarrow> bool" where
  "is_array_index s \<longleftrightarrow>
     s \<noteq> [] \<and> list_all is_digit s \<and> (hd s = CHR ''0'' \<longrightarrow> s = ''0'') \<and>
     decimal_value s \<le> 4294967294"

definition object_keys :: "(string \<times> 'a) list \<Rightarrow> string list" where
  "object_keys obj =
     sort_key decimal_value (filter is_array_index (map fst obj)) @
     filter (\<lambda>k. \<not> is_array_index k) (map fst obj)"

type_synonym theme_groups = "(string \<times> RAGChunk list) list"

text \<open>
  One turn of the grouping loop: \<^verbatim>\<open>if (!themeGroups[chunk.theme])
  themeGroups[chunk.theme] = []\<close>, then \<^verbatim>\<open>themeGroups[chunk.theme].push(chunk)\<close>.
\<close>

definition group_chunk :: "theme_groups \<Rightarrow> RAGChunk \<Rightarrow> error + theme_groups" where
  "group_chunk themeGroups chunk =
     (let themeGroups' =
            (case get_property themeGroups (theme chunk) of
               Undefined \<Rightarrow> AList.update (theme chunk) [] themeGroups
             | _ \<Rightarrow> themeGroups)
      in case get_property themeGroups' (theme chunk) of
           Own cs \<Rightarrow> Inr (AList.update (theme chunk) (cs @ [chunk]) themeGroups')
         | _ \<Rightarrow> Inl (Error TypeError ''themeGroups[chunk.theme].push is not a function''))"

fun group_chunks :: "theme_groups \<Rightarrow> RAGChunk list \<Rightarrow> error + theme_groups" where
  "group_chunks themeGroups [] = Inr themeGroups"
| "group_chunks themeGroups (chunk # rest) =
     (case group_chunk themeGroups chunk of
        Inl e \<Rightarrow> Inl e
      | Inr themeGroups' \<Rightarrow> group_chunks themeGroups' rest)"

text \<open>\<^verbatim>\<open>sort((a, b) => b.similarity - a.similarity)\<close> on every group: a stable
  sort, descending. Similarity scores are only compared, so they are reals here; the
  limit is an integer.\<close>

definition sort_groups :: "theme_groups \<Rightarrow> theme_groups" where
  "sort_groups themeGroups =
     map (\<lambda>(t, cs). (t, sort_key (\<lambda>c. - similarity c) cs)) themeGroups"

text \<open>
  The round-robin loop. \<^verbatim>\<open>themeKeys[themeIndex]\<close> beyond the end of the array is
  \<^verbatim>\<open>undefined\<close>, which as a property key reads \<^verbatim>\<open>"undefined"\<close>;
  \<^verbatim>\<open>splice(themeIndex, 1)\<close> beyond the end removes nothing.
\<close>

definition key_at :: "string list \<Rightarrow> nat \<Rightarrow> string" where
  "key_at themeKeys i = (if i < length themeKeys then themeKeys ! i else ''undefined'')"

definition splice_one :: "nat \<Rightarrow> 'a list \<Rightarrow> 'a list" where
  "splice_one i xs = take i xs @ drop (Suc i) xs"

definition remaining :: "theme_groups \<Rightarrow> nat" where
  "remaining themeGroups = sum_list (map (\<lambda>(t, cs). length cs) themeGroups)"

lemma length_splice_one:
  "length (splice_one i xs) = (if i < length xs then length xs - 1 else length xs)"
  by (auto simp: splice_one_def)

lemma remaining_update:
  "map_of g k = Some (c # cs) \<Longrightarrow> remaining (AList.update k cs g) < remaining g"
  by (induction g) (auto simp: remaining_def)

function round_robin ::
  "int \<Rightarrow> string list \<Rightarrow> nat \<Rightarrow> theme_groups \<Rightarrow> RAGChunk list \<Rightarrow> RAGChunk list" where
  "round_robin limit themeKeys themeIndex themeGroups result =
     (if int (length result) < limit \<and> themeKeys \<noteq> [] then
        (let key = key_at themeKeys themeIndex in
         case map_of themeGroups key of
           Some (chunk # themeChunks) \<Rightarrow>
             (if themeChunks = [] then
                (let themeKeys' = splice_one themeIndex themeKeys in
                 round_robin limit themeKeys'
                   (if themeIndex \<ge> length themeKeys' then 0 else themeIndex)
                   (AList.update key themeChunks themeGroups) (result @ [chunk]))
              else
                round_robin limit themeKeys ((themeIndex + 1) mod length themeKeys)
                  (AList.update key themeChunks themeGroups) (result @ [chunk]))
         | _ \<Rightarrow>
             (let themeKeys' = splice_one themeIndex themeKeys in
              round_robin limit themeKeys'
                (if themeIndex \<ge> length themeKeys' then 0 else themeIndex)
                themeGroups result))
      else result)"
  by pat_completeness auto
termination
  apply (relation "measures [\<lambda>(l, ks, i, g, r). remaining g, \<lambda>(l, ks, i, g, r). length ks,
                           \<lambda>(l, ks, i, g, r). if i < length ks then 0 else 1]")
  apply (simp_all add: remaining_update length_splice_one)
  done

declare round_robin.simps [simp del]

definition diversifyByTheme :: "RAGChunk list \<Rightarrow> int \<Rightarrow> error + RAGChunk list" where
  "diversifyByTheme cs limit =
     (case group_chunks [] cs of
        Inl e \<Rightarrow> Inl e
      | Inr themeGroups \<Rightarrow>
          (let sorted = sort_groups themeGroups
           in Inr (round_robin limit (object_keys sorted) 0 sorted [])))"

text \<open>
  Notions for stating what the diversification guarantees: theme labels that are not
  names of members of \<^verbatim>\<open>Object.prototype\<close>; groups that are non-empty, keyed by
  distinct themes and hold chunks of their own theme; the chunks still waiting in the
  groups; the invariants of the round-robin loop; and the order in which the elements
  of a list are first seen.
\<close>

definition plain_themes :: "RAGChunk list \<Rightarrow> bool" where
  "plain_themes cs \<longleftrightarrow> (\<forall>c\<in>set cs. theme c \<notin> set object_prototype_keys)"

definition well_grouped :: "theme_groups \<Rightarrow> bool" where
  "well_grouped g \<longleftrightarrow>
     distinct (map fst g) \<and> (\<forall>(k, cs)\<in>set g. cs \<noteq> [] \<and> (\<forall>c\<in>set cs. theme c = k))"

definition contents :: "theme_groups \<Rightarrow> RAGChunk list" where
  "contents g = concat (map snd g)"

definition group_of :: "theme_groups \<Rightarrow> string \<Rightarrow> RAGChunk list" where
  "group_of g k = (case map_of g k of None \<Rightarrow> [] | Some cs \<Rightarrow> cs)"

definition rr_inv :: "string list \<Rightarrow> nat \<Rightarrow> theme_groups \<Rightarrow> bool" where
  "rr_inv ks i g \<longleftrightarrow>
     distinct ks \<and> (ks \<noteq> [] \<longrightarrow> i < length ks) \<and>
     (\<forall>k\<in>set ks. \<exists>c cs. map_of g k = Some (c # cs) \<and> (\<forall>x\<in>set (c # cs). theme x = k))"

definition breadth_inv :: "string set \<Rightarrow> string list \<Rightarrow> nat \<Rightarrow> RAGChunk list \<Rightarrow> bool" where
  "breadth_inv T ks i result \<longleftrightarrow>
     finite T \<and> set ks \<subseteq> T \<and> theme ` set result \<subseteq> T \<and>
     T \<subseteq> theme ` set result \<union> set (drop i ks) \<and>
     (set (drop i ks) \<inter> theme ` set result = {} \<or> T \<subseteq> theme ` set result) \<and>
     min (length result) (card T) \<le> card (theme ` set result)"

definition pending :: "string list \<Rightarrow> theme_groups \<Rightarrow> RAGChunk list" where
  "pending ks g = concat (map (group_of g) ks)"

fun first_seen :: "'a list \<Rightarrow> 'a list" where
  "first_seen [] = []"
| "first_seen (x # xs) = x # filter (\<lambda>y. y \<noteq> x) (first_seen xs)"

text \<open>The requester and the request, as far as the pipeline reads them.\<close>

datatype GenerationFormat = Video | Podcast | Slides

datatype TonePreset = Professional | Casual | Inspiring | Technical | Executive

datatype LengthPreset = Short | Medium | Long

record UserProfile =
  user_id :: string
  role :: "string option"
  segment :: "string option"
  job_function :: "string option"
  geo :: "string option"

record GenerationCustomization =
  language :: string
  tone :: TonePreset
  length_preset :: LengthPreset
  extra_instruction :: "string option"

fun format_name :: "GenerationFormat \<Rightarrow> string" where
  "format_name Video = ''video''"
| "format_name Podcast = ''podcast''"
| "format_name Slides = ''slides''"

fun tone_name :: "TonePreset \<Rightarrow> string" where
  "tone_name Professional = ''professional''"
| "tone_name Casual = ''casual''"
| "tone_name Inspiring = ''inspiring''"
| "tone_name Technical = ''technical''"
| "tone_name Executive = ''executive''"

fun segment_of :: "string \<Rightarrow> string option \<Rightarrow> string \<Rightarrow> string list" where
  "segment_of before None after = []"
| "segment_of before (Some v) after = (if v = [] then [] else [before @ v @ after])"

fun join_with :: "string \<Rightarrow> string list \<Rightarrow> string" where
  "join_with sep [] = []"
| "join_with sep [x] = x"
| "join_with sep (x # xs) = x @ sep @ join_with sep xs"

definition buildSemanticQuery :: "UserProfile \<Rightarrow> GenerationFormat \<Rightarrow> GenerationCustomization \<Rightarrow> string" where
  "buildSemanticQuery userProfile fmt customization =
     join_with '' ''
       ([''Create a '' @ tone_name (tone customization) @ '' '' @ format_name fmt @ '' takeaway''] @
        segment_of ''for '' (role userProfile) [] @
        segment_of ''in '' (segment userProfile) '' segment'' @
        segment_of ''from '' (job_function userProfile) '' perspective'' @
        segment_of ''in '' (geo userProfile) '' region'' @
        segment_of [] (extra_instruction customization) [] @
        [case fmt of
           Video \<Rightarrow> ''focusing on visual storytelling and key messages''
         | Podcast \<Rightarrow> ''emphasizing conversational insights and context''
         | Slides \<Rightarrow> ''highlighting strategic takeaways and actionable insights''])"

text \<open>
  \<^verbatim>\<open>createEmbedding\<close> and the similarity search. The embedding service throws or
  answers with an embedding that may be absent; the search answers with an error or
  with rows that may be \<^verbatim>\<open>null\<close>.
\<close>

datatype embedding_response = EmbeddingThrows error | Embedding "real list option"

definition createEmbedding :: "embedding_response \<Rightarrow> error + real list" where
  "createEmbedding r =
     (case r of
        EmbeddingThrows e \<Rightarrow> Inl e
      | Embedding None \<Rightarrow> Inl (Error JsError ''No embedding in OpenAI response'')
      | Embedding (Some v) \<Rightarrow> Inr v)"

datatype rpc_result = RpcError string | RpcData "RAGChunk list option"

definition TOP_K_CHUNKS :: int where
  "TOP_K_CHUNKS = 10"

definition SIMILARITY_THRESHOLD :: real where
  "SIMILARITY_THRESHOLD = 7 / 10"

definition retrieveRelevantContext ::
  "(string \<Rightarrow> embedding_response) \<Rightarrow> (real list \<Rightarrow> real \<Rightarrow> int \<Rightarrow> rpc_result) \<Rightarrow>
   UserProfile \<Rightarrow> GenerationFormat \<Rightarrow> GenerationCustomization \<Rightarrow> int \<Rightarrow> error + RAGContext" where
  "retrieveRelevantContext embedding_service similarity_search userProfile fmt customization topK =
     (let q = buildSemanticQuery userProfile fmt customization in
      and_then (createEmbedding (embedding_service q)) (\<lambda>queryEmbedding.
        case similarity_search queryEmbedding SIMILARITY_THRESHOLD (topK * 2) of
          RpcError m \<Rightarrow> Inl (Error JsError (''Failed to retrieve context: '' @ m))
        | RpcData None \<Rightarrow> Inl (Error JsError ''No relevant content found for this query'')
        | RpcData (Some cs) \<Rightarrow>
            if cs = [] then Inl (Error JsError ''No relevant content found for this query'')
            else and_then (diversifyByTheme cs topK) (\<lambda>diversifiedChunks.
                   Inr \<lparr>chunks = diversifiedChunks, query = q,
                        total_tokens = sum_list (map token_count diversifiedChunks)\<rparr>)))"

section \<open>Script generator\<close>

text \<open>\<^verbatim>\<open>generateScript\<close>: one completion, trimmed; a failure is rethrown as a plain
  \<^verbatim>\<open>Error\<close> with a prefixed message. The prompts only feed the completion
  service, whose answer is an input here.\<close>

definition generateScript :: "completion \<Rightarrow> error + string" where
  "generateScript c =
     (case chat c of
        Inl e \<Rightarrow> Inl (Error JsError (''Failed to generate script: '' @ message e))
      | Inr reply \<Rightarrow> Inr (trim reply))"

section \<open>Orchestrator\<close>

datatype GenerationStatus = Queued | Processing | Rendering | Completed | Failed

text \<open>The row of the table \<^verbatim>\<open>generations\<close>, as far as the orchestrator writes it,
  and the table, keyed by the row's id.\<close>

record Generation =
  status :: GenerationStatus
  error_message :: "string option"
  retry_count :: int
  rag_query :: "string option"
  rag_chunks_used :: "string list option"
  takeaway_plan :: "json option"
  script :: "string option"

type_synonym generations = "string \<rightharpoonup> Generation"

text \<open>\<^verbatim>\<open>.update(...).eq('id', generation_id)\<close>: the row with that id, if there is one.\<close>

definition update_row :: "string \<Rightarrow> (Generation \<Rightarrow> Generation) \<Rightarrow> generations \<Rightarrow> generations" where
  "update_row generation_id f db =
     (case db generation_id of None \<Rightarrow> db | Some g \<Rightarrow> db(generation_id \<mapsto> f g))"

definition updateStatus :: "string \<Rightarrow> GenerationStatus \<Rightarrow> string \<Rightarrow> generations \<Rightarrow> generations" where
  "updateStatus generation_id st msg db =
     update_row generation_id
       (\<lambda>g. if msg = [] then g\<lparr>status := st\<rparr> else g\<lparr>status := st, error_message := Some msg\<rparr>) db"

text \<open>
  \<^verbatim>\<open>retryGeneration\<close> sends one update with the status \<^verbatim>\<open>queued\<close> and, for the
  integer column \<^verbatim>\<open>retry_count\<close>, the value
  \<^verbatim>\<open>supabase.rpc('increment', { x: 1 }) as any\<close>. That call is not awaited: the value
  is the query builder it returns, an object and not a number (the calls of
  \<^verbatim>\<open>supabase.rpc\<close> elsewhere in the repository are awaited and their result is
  read, and no function \<^verbatim>\<open>increment\<close> is among the migrations). An update that
  gives an integer column a value that is not a number is refused as a whole; the
  refusal comes back in the result of the update, which \<^verbatim>\<open>retryGeneration\<close> does
  not read. So the row keeps its status and its count.
\<close>

datatype column_value = NumberValue int | QueryBuilder string

definition update_status_and_retry_count ::
  "string \<Rightarrow> GenerationStatus \<Rightarrow> column_value \<Rightarrow> generations \<Rightarrow> generations" where
  "update_status_and_retry_count generation_id st v db =
     (case v of
        NumberValue n \<Rightarrow> update_row generation_id (\<lambda>g. g\<lparr>status := st, retry_count := n\<rparr>) db
      | QueryBuilder f \<Rightarrow> db)"

definition retryGeneration :: "string \<Rightarrow> generations \<Rightarrow> generations" where
  "retryGeneration generation_id db =
     update_status_and_retry_count generation_id Queued (QueryBuilder ''increment'') db"

definition failGeneration :: "string \<Rightarrow> string \<Rightarrow> generations \<Rightarrow> generations" where
  "failGeneration generation_id msg db =
     update_row generation_id (\<lambda>g. g\<lparr>status := Failed, error_message := Some msg\<rparr>) db"

text \<open>The collaborators of one run: the five completion calls, the embedding service,
  the similarity search and the two JSON built-ins.\<close>

record services =
  classifier :: "string \<Rightarrow> completion"
  embedder :: "string \<Rightarrow> embedding_response"
  match_transcript_chunks :: "real list \<Rightarrow> real \<Rightarrow> int \<Rightarrow> rpc_result"
  planner :: "RAGContext \<Rightarrow> completion"
  json_parse :: "string \<Rightarrow> error + json"
  json_stringify :: "json \<Rightarrow> string"
  plan_validator :: "string \<Rightarrow> completion"
  script_writer :: "json \<Rightarrow> completion"
  script_validator :: "string \<Rightarrow> completion"

record GenerationParams =
  generation_id :: string
  user_profile :: UserProfile
  format :: GenerationFormat
  presenter_name :: "string option"
  customization :: GenerationCustomization

text \<open>
  The \<^verbatim>\<open>try\<close> block of \<^verbatim>\<open>generateTakeaway\<close>: the table after the writes made,
  and the error that ended the block or the row fetched at its end.
\<close>

definition run_pipeline ::
  "services \<Rightarrow> GenerationParams \<Rightarrow> generations \<Rightarrow> generations \<times> (error + Generation option)" where
  "run_pipeline sv params db =
     (let gid = generation_id params;
          db1 = updateStatus gid Processing ''Validating input...'' db
      in case validateExtraInstruction (classifier sv) (extra_instruction (customization params)) of
           Inl e \<Rightarrow> (db1, Inl e)
         | Inr _ \<Rightarrow>
      (let db2 = updateStatus gid Processing ''Retrieving relevant content...'' db1
       in case retrieveRelevantContext (embedder sv) (match_transcript_chunks sv)
                 (user_profile params) (format params) (customization params) TOP_K_CHUNKS of
            Inl e \<Rightarrow> (db2, Inl e)
          | Inr context \<Rightarrow>
       (let db3 = update_row gid
                    (\<lambda>g. g\<lparr>rag_query := Some (query context),
                            rag_chunks_used := Some (map chunk_id (chunks context))\<rparr>) db2;
            db4 = updateStatus gid Processing ''Creating takeaway plan...'' db3
        in case generateTakeawayPlan (json_parse sv) (planner sv context) of
             Inl e \<Rightarrow> (db4, Inl e)
           | Inr plan \<Rightarrow>
        (case validatePlan (json_stringify sv) (plan_validator sv) plan of
             Inl e \<Rightarrow> (db4, Inl e)
           | Inr _ \<Rightarrow>
        (let db5 = update_row gid (\<lambda>g. g\<lparr>takeaway_plan := Some plan\<rparr>) db4;
             db6 = updateStatus gid Processing ''Writing script...'' db5
         in case generateScript (script_writer sv plan) of
              Inl e \<Rightarrow> (db6, Inl e)
            | Inr scr \<Rightarrow>
         (case validateScript (script_validator sv) scr of
              Inl e \<Rightarrow> (db6, Inl e)
            | Inr _ \<Rightarrow>
         (let db7 = update_row gid (\<lambda>g. g\<lparr>script := Some scr\<rparr>) db6;
              db8 = updateStatus gid Rendering ''Preparing to render media...'' db7
          in (db8, Inr (db8 gid)))))))))"

text \<open>The \<^verbatim>\<open>catch\<close> block: retry or fail, by the message of the error and the
  stored \<^verbatim>\<open>retry_count\<close> (\<^verbatim>\<open>currentGeneration?.retry_count || 0\<close>).\<close>

definition handle_failure ::
  "string \<Rightarrow> error \<Rightarrow> generations \<Rightarrow> generations \<times> (error + Generation option)" where
  "handle_failure gid e db =
     (let retryCount = (case db gid of None \<Rightarrow> 0 | Some g \<Rightarrow> retry_count g)
      in if isRetriableError e \<and> retryCount < MAX_RETRIES then
           (retryGeneration gid db, Inl (Error GenerationError ''Generation failed, retrying...''))
         else (failGeneration gid (message e) db, Inl e))"

definition generateTakeaway ::
  "services \<Rightarrow> GenerationParams \<Rightarrow> generations \<Rightarrow> generations \<times> (error + Generation option)" where
  "generateTakeaway sv params db =
     (case run_pipeline sv params db of
        (db', Inl e) \<Rightarrow> handle_failure (generation_id params) e db'
      | (db', Inr g) \<Rightarrow> (db', Inr g))"

text \<open>Repeated attempts on one run (whatever calls \<^verbatim>\<open>generateTakeaway\<close> again is
  outside the pipeline), and a run whose pipeline always ends in a retriable error.\<close>

definition same_retries :: "string \<Rightarrow> generations \<Rightarrow> generations \<Rightarrow> bool" where
  "same_retries gid db db' \<longleftrightarrow>
     (\<exists>g g'. db gid = Some g \<and> db' gid = Some g' \<and> retry_count g' = retry_count g)"

fun attempts :: "services list \<Rightarrow> GenerationParams \<Rightarrow> generations \<Rightarrow> generations" where
  "attempts [] params db = db"
| "attempts (sv # svs) params db = attempts svs params (fst (generateTakeaway sv params db))"

definition fails_retriably :: "services \<Rightarrow> GenerationParams \<Rightarrow> bool" where
  "fails_retriably sv params \<longleftrightarrow>
     (\<forall>db. \<exists>e. snd (run_pipeline sv params db) = Inl e \<and> isRetriableError e)"

section \<open>Example inputs\<close>

text \<open>A validator that approves, one whose call fails, a serialiser for plans that
  are a single string, and texts with and without prohibited content.\<close>

definition approving :: "string \<Rightarrow> completion" where
  "approving t = Completion (Some ''APPROVED'')"

definition unavailable :: "string \<Rightarrow> completion" where
  "unavailable t = ApiThrows (Error JsError ''503 Service Unavailable'')"

definition identity_stringify :: "json \<Rightarrow> string" where
  "identity_stringify j = (case j of JString s \<Rightarrow> s | _ \<Rightarrow> [])"

definition five_categories :: string where
  "five_categories = ''We promise $5M by Q3 2024 vs the roadmap''"

definition five_categories_reordered :: string where
  "five_categories_reordered = ''Roadmap vs. Q3 FY24: $5.5m, guaranteed''"

definition clean_text :: string where
  "clean_text = ''Focus on customer value''"

text \<open>A requester, a request, a queued run, and collaborators for a successful run
  and for several failing ones.\<close>

definition demo_profile :: UserProfile where
  "demo_profile = \<lparr>user_id = ''u1'', role = Some ''Product Manager'', segment = Some ''Enterprise'',
                    job_function = None, geo = None\<rparr>"

definition demo_customization :: GenerationCustomization where
  "demo_customization = \<lparr>language = ''en'', tone = Professional, length_preset = Medium,
                          extra_instruction = None\<rparr>"

definition demo_params :: GenerationParams where
  "demo_params = \<lparr>generation_id = ''g1'', user_profile = demo_profile, format = Video,
                   presenter_name = None, customization = demo_customization\<rparr>"


definition queued_row :: Generation where
  "queued_row = \<lparr>status = Queued, error_message = None, retry_count = 0, rag_query = None,
                  rag_chunks_used = None, takeaway_plan = None, script = None\<rparr>"

definition demo_db :: generations where
  "demo_db = [''g1'' \<mapsto> queued_row]"

definition sample_chunk :: "string \<Rightarrow> string \<Rightarrow> real \<Rightarrow> RAGChunk" where
  "sample_chunk i t s = \<lparr>chunk_id = i, transcript_id = ''t1'', theme = t, content = ''...'',
                          token_count = 400, similarity = s\<rparr>"

definition sample_plan :: json where
  "sample_plan = JObject
     [(''title'', JString ''Win with focus''),
      (''hook'', JString ''Three moves matter''),
      (''key_points'', JArray [JString ''Listen'', JString ''Simplify'', JString ''Deliver'']),
      (''framing'', JString ''For product teams''),
      (''cta'', JString ''Browse the board'')]"

definition title_stringify :: "json \<Rightarrow> string" where
  "title_stringify j = (case field j ''title'' of Some (JString t) \<Rightarrow> t | _ \<Rightarrow> [])"

definition base_services :: services where
  "base_services =
     \<lparr>classifier = (\<lambda>i. Completion (Some ''ALLOWED'')),
      embedder = (\<lambda>q. Embedding (Some [])),
      match_transcript_chunks = (\<lambda>v t n. RpcData (Some
         [sample_chunk ''c1'' ''Strategy'' (9 / 10), sample_chunk ''c2'' ''Growth'' (8 / 10)])),
      planner = (\<lambda>ctx. Completion (Some ''{}'')),
      json_parse = parse_to sample_plan,
      json_stringify = title_stringify,
      plan_validator = approving,
      script_writer = (\<lambda>p. Completion (Some '' Hello team. '')),
      script_validator = approving\<rparr>"

definition timeout_services :: services where
  "timeout_services = base_services\<lparr>embedder := (\<lambda>q. EmbeddingThrows (Error JsError ''Request timeout''))\<rparr>"


definition empty_search_services :: services where
  "empty_search_services = base_services\<lparr>match_transcript_chunks := (\<lambda>v t n. RpcData (Some []))\<rparr>"

definition constructor_services :: services where
  "constructor_services =
     base_services\<lparr>match_transcript_chunks := (\<lambda>v t n. RpcData (Some
        [sample_chunk ''c1'' ''constructor'' (9 / 10)]))\<rparr>"


text \<open>Candidates with a theme named like a member of \<^verbatim>\<open>Object.prototype\<close>, and
  candidates with a numeric theme.\<close>

definition colliding_chunks :: "RAGChunk list" where
  "colliding_chunks =
     [sample_chunk ''c1'' ''Strategy'' (9 / 10), sample_chunk ''c2'' ''constructor'' (85 / 100),
      sample_chunk ''c3'' ''Growth'' (8 / 10)]"

definition numeric_chunks :: "RAGChunk list" where
  "numeric_chunks =
     [sample_chunk ''c1'' ''Strategy'' (9 / 10), sample_chunk ''c2'' ''2025'' (8 / 10)]"

section \<open>Properties of the plan generator\<close>

lemma and_then_Inr:
  "and_then r f = Inr y \<longleftrightarrow> (\<exists>x. r = Inr x \<and> f x = Inr y)"
  by (cases r) (simp_all add: and_then_def)

lemma validatePlanStructure_Inr:
  "validatePlanStructure plan = Inr u \<Longrightarrow> checked_plan_invariant plan"
  unfolding validatePlanStructure_def checked_plan_invariant_def
  by (simp split: if_splits)

lemma generateTakeawayPlan_Inr:
  "generateTakeawayPlan parse c = Inr plan \<Longrightarrow> validatePlanStructure plan = Inr ()"
  unfolding generateTakeawayPlan_def
  by (auto split: sum.splits simp: and_then_Inr)

lemma nonempty_string_object:
  "nonempty_string (field plan k) \<Longrightarrow> truthy plan \<and> typeof_object plan"
  by (cases plan) simp_all

lemma validatePlanStructure_iff:
  "validatePlanStructure plan = Inr () \<longleftrightarrow> checked_plan_invariant plan"
proof
  assume "validatePlanStructure plan = Inr ()"
  then show "checked_plan_invariant plan" by (rule validatePlanStructure_Inr)
next
  assume c: "checked_plan_invariant plan"
  then have "truthy plan \<and> typeof_object plan"
    unfolding checked_plan_invariant_def using nonempty_string_object by blast
  with c show "validatePlanStructure plan = Inr ()"
    unfolding validatePlanStructure_def checked_plan_invariant_def by simp
qed

lemma few_key_points_unchecked:
  assumes "key_points_count plan = Some n" and "n < 3"
  shows "\<not> checked_plan_invariant plan"
proof -
  from assms(1) obtain ks where "field plan ''key_points'' = Some (JArray ks)" and "length ks = n"
    unfolding key_points_count_def by (auto split: option.splits json.splits)
  with assms(2) have "\<not> array_of_at_least 3 (field plan ''key_points'')" by simp
  then show ?thesis unfolding checked_plan_invariant_def by simp
qed

lemma generateTakeawayPlan_Inl_prefix:
  "generateTakeawayPlan parse c = Inl e \<Longrightarrow>
     \<exists>m. e = Error JsError (''Failed to generate takeaway plan: '' @ m)"
  unfolding generateTakeawayPlan_def
  by (auto split: sum.splits)

lemma generateTakeawayPlan_rejects:
  assumes "parse reply = Inr p" and "\<not> checked_plan_invariant p"
  shows "\<exists>e. generateTakeawayPlan parse (Completion (Some reply)) = Inl e"
proof -
  have "validatePlanStructure p \<noteq> Inr ()"
    using assms(2) validatePlanStructure_iff by blast
  then obtain e where "validatePlanStructure p = Inl e"
    by (cases "validatePlanStructure p") auto
  then show ?thesis
    using assms(1) unfolding generateTakeawayPlan_def chat_def and_then_def
    by (auto split: sum.splits)
qed

text \<open>
  C6 (as amended). Every plan \<^verbatim>\<open>generateTakeawayPlan\<close> returns has a non-empty
  title, hook, framing and call to action and at least three key points. A parsed model
  output without that shape, in particular one with fewer than three key points, makes
  the call fail with a plain \<^verbatim>\<open>Error\<close> whose message starts with
  "Failed to generate takeaway plan: ". The function consults no guardrail: the
  failure happens inside the generator, whatever a later guardrail would say.
\<close>

theorem C6_plan_structure:
  "(generateTakeawayPlan parse c = Inr plan \<longrightarrow> checked_plan_invariant plan) \<and>
   (parse reply = Inr p \<and> \<not> checked_plan_invariant p \<longrightarrow>
      (\<exists>m. generateTakeawayPlan parse (Completion (Some reply)) =
              Inl (Error JsError (''Failed to generate takeaway plan: '' @ m)))) \<and>
   (key_points_count p = Some n \<and> n < 3 \<longrightarrow> \<not> checked_plan_invariant p)"
proof (intro conjI impI)
  assume "generateTakeawayPlan parse c = Inr plan"
  then show "checked_plan_invariant plan"
    using generateTakeawayPlan_Inr validatePlanStructure_Inr by blast
next
  assume "parse reply = Inr p \<and> \<not> checked_plan_invariant p"
  then obtain e where "generateTakeawayPlan parse (Completion (Some reply)) = Inl e"
    using generateTakeawayPlan_rejects by blast
  then show "\<exists>m. generateTakeawayPlan parse (Completion (Some reply)) =
              Inl (Error JsError (''Failed to generate takeaway plan: '' @ m))"
    using generateTakeawayPlan_Inl_prefix by blast
next
  assume "key_points_count p = Some n \<and> n < 3"
  then show "\<not> checked_plan_invariant p"
    using few_key_points_unchecked by blast
qed

text \<open>The theorem at a plan with two key points: construction fails.\<close>

theorem C6_plan_structure_witness:
  "key_points_count short_plan = Some 2 \<and> \<not> checked_plan_invariant short_plan \<and>
   (\<exists>m. generateTakeawayPlan (parse_to short_plan) (Completion (Some ''{}'')) =
          Inl (Error JsError (''Failed to generate takeaway plan: '' @ m))) \<and>
   generateTakeawayPlan (parse_to wide_plan) (Completion (Some ''{}'')) = Inr wide_plan \<and>
   checked_plan_invariant wide_plan"
proof -
  have k: "key_points_count short_plan = Some 2 \<and> (2::nat) < 3"
    by (simp add: key_points_count_def short_plan_def)
  have n: "\<not> checked_plan_invariant short_plan"
    using C6_plan_structure [of "parse_to short_plan" "Completion None" short_plan "[]" short_plan 2] k by blast
  have p: "parse_to short_plan ''{}'' = Inr short_plan"
    by (simp add: parse_to_def)
  have f: "\<exists>m. generateTakeawayPlan (parse_to short_plan) (Completion (Some ''{}'')) =
          Inl (Error JsError (''Failed to generate takeaway plan: '' @ m))"
    using C6_plan_structure [of "parse_to short_plan" "Completion None" short_plan "''{}''" short_plan 2] p n
    by blast
  have w: "generateTakeawayPlan (parse_to wide_plan) (Completion (Some ''{}'')) = Inr wide_plan"
    by (simp add: generateTakeawayPlan_def chat_def and_then_def parse_to_def
        log_generated_plan_def validatePlanStructure_def wide_plan_def)
  have "checked_plan_invariant wide_plan"
    using C6_plan_structure [of "parse_to wide_plan" "Completion (Some ''{}'')" wide_plan] w
    by blast
  with k n f w show ?thesis by blast
qed

text \<open>
  The claim as stated fails: a plan with six key points and a title of 61 characters
  is returned, although it breaks the bounds "at most 5 key points" and "title at most
  60 characters" of the spec's invariant.
\<close>

theorem C6_counterexample:
  "generateTakeawayPlan (parse_to wide_plan) (Completion (Some ''{}'')) = Inr wide_plan \<and>
   \<not> spec_plan_invariant wide_plan"
  by (simp add: generateTakeawayPlan_def chat_def and_then_def parse_to_def
      log_generated_plan_def validatePlanStructure_def wide_plan_def spec_plan_invariant_def)

section \<open>Properties of the guardrail\<close>

lemma fail_open_class:
  "fail_open r = Inl e \<Longrightarrow> error_class e = GuardrailViolation"
  unfolding fail_open_def by (auto split: sum.splits if_splits)

lemma llm_verdict_class:
  "llm_verdict c = Inl e \<Longrightarrow> error_class e = GuardrailViolation"
  unfolding llm_verdict_def by (rule fail_open_class)

lemma llm_verdict_throws:
  "error_class e \<noteq> GuardrailViolation \<Longrightarrow> llm_verdict (ApiThrows e) = Inr ()"
  unfolding llm_verdict_def fail_open_def chat_def and_then_def by simp

lemma llm_verdict_no_content:
  "llm_verdict (Completion None) = Inr ()"
  unfolding llm_verdict_def fail_open_def chat_def and_then_def by simp

lemma check_patterns_class:
  "check_patterns what ps t = Inl e \<Longrightarrow> error_class e = GuardrailViolation"
  by (induction what ps t rule: check_patterns.induct) (auto split: if_splits)

lemma check_patterns_Inr:
  "check_patterns what ps t = Inr () \<longleftrightarrow> \<not> list_ex (\<lambda>(pattern, description). test pattern t) ps"
  by (induction what ps t rule: check_patterns.induct) auto

lemma check_patterns_first:
  "i < length ps \<Longrightarrow> test (fst (ps ! i)) t \<Longrightarrow> (\<forall>j<i. \<not> test (fst (ps ! j)) t) \<Longrightarrow>
   check_patterns what ps t =
     Inl (Error GuardrailViolation (what @ '' contains prohibited content: '' @ snd (ps ! i)))"
proof (induction what ps t arbitrary: i rule: check_patterns.induct)
  case (1 what t)
  then show ?case by simp
next
  case (2 what pattern description rest t)
  show ?case
  proof (cases i)
    case 0
    with 2 show ?thesis by simp
  next
    case (Suc k)
    with 2(3,4) have nt: "\<not> test pattern t" by fastforce
    have "\<forall>j<k. \<not> test (fst (rest ! j)) t"
      using 2(4) Suc by fastforce
    moreover have "k < length rest" "test (fst (rest ! k)) t"
      using 2(2,3) Suc by auto
    ultimately show ?thesis using 2(1) nt Suc by simp
  qed
qed

lemma check_patterns_same:
  "(\<forall>p\<in>set ps. test (fst p) t = test (fst p) t') \<Longrightarrow>
   check_patterns what ps t = check_patterns what ps t'"
  by (induction what ps t rule: check_patterns.induct) auto

lemma validateExtraInstruction_class:
  "validateExtraInstruction cl i = Inl e \<Longrightarrow> error_class e = GuardrailViolation"
  unfolding validateExtraInstruction_def
  by (auto split: option.splits if_splits dest: fail_open_class)

lemma validatePlan_class:
  "validatePlan st v plan = Inl e \<Longrightarrow> error_class e = GuardrailViolation"
  unfolding validatePlan_def and_then_def
  by (auto simp: Let_def split: sum.splits dest: check_patterns_class llm_verdict_class)

lemma validateScript_class:
  "validateScript v s = Inl e \<Longrightarrow> error_class e = GuardrailViolation"
  unfolding validateScript_def and_then_def
  by (auto split: sum.splits dest: check_patterns_class llm_verdict_class)

lemma validateScript_patterns:
  "validateScript v s = Inr () \<Longrightarrow> \<not> matches_any s"
  unfolding validateScript_def and_then_def matches_any_def
  by (auto split: sum.splits simp: check_patterns_Inr)

lemma matches_any_blocks:
  "matches_any t \<Longrightarrow> \<exists>m. check_patterns what PROHIBITED_PATTERNS t = Inl (Error GuardrailViolation m)"
proof -
  assume "matches_any t"
  then have "check_patterns what PROHIBITED_PATTERNS t \<noteq> Inr ()"
    unfolding matches_any_def using check_patterns_Inr by blast
  then obtain e where e: "check_patterns what PROHIBITED_PATTERNS t = Inl e"
    by (cases "check_patterns what PROHIBITED_PATTERNS t") auto
  then have "error_class e = GuardrailViolation" by (rule check_patterns_class)
  with e show ?thesis by (cases e) auto
qed

text \<open>
  C4. When the validator call of the second stage throws an error that is not a
  \<^verbatim>\<open>GuardrailViolation\<close>, \<^verbatim>\<open>validatePlan\<close> and \<^verbatim>\<open>validateScript\<close> return
  normally on a text that no prohibited pattern matches (fail-open); on a text that a
  prohibited pattern matches they throw a \<^verbatim>\<open>GuardrailViolation\<close> whatever the
  validator does (fail-closed).
\<close>

theorem C4_fail_open:
  "(error_class e \<noteq> GuardrailViolation \<and> \<not> matches_any (stringify plan) \<and>
      validator (stringify plan) = ApiThrows e \<longrightarrow>
        validatePlan stringify validator plan = Inr ()) \<and>
   (error_class e \<noteq> GuardrailViolation \<and> \<not> matches_any scr \<and>
      validator' (take 2000 scr) = ApiThrows e \<longrightarrow>
        validateScript validator' scr = Inr ()) \<and>
   (matches_any (stringify plan) \<longrightarrow>
      (\<exists>m. validatePlan stringify validator plan = Inl (Error GuardrailViolation m))) \<and>
   (matches_any scr \<longrightarrow>
      (\<exists>m. validateScript validator' scr = Inl (Error GuardrailViolation m)))"
proof (intro conjI impI)
  assume a: "error_class e \<noteq> GuardrailViolation \<and> \<not> matches_any (stringify plan) \<and>
      validator (stringify plan) = ApiThrows e"
  then have "check_patterns ''Plan'' PROHIBITED_PATTERNS (stringify plan) = Inr ()"
    unfolding matches_any_def using check_patterns_Inr by blast
  with a show "validatePlan stringify validator plan = Inr ()"
    unfolding validatePlan_def and_then_def by (simp add: llm_verdict_throws)
next
  assume a: "error_class e \<noteq> GuardrailViolation \<and> \<not> matches_any scr \<and>
      validator' (take 2000 scr) = ApiThrows e"
  then have "check_patterns ''Script'' PROHIBITED_PATTERNS scr = Inr ()"
    unfolding matches_any_def using check_patterns_Inr by blast
  with a show "validateScript validator' scr = Inr ()"
    unfolding validateScript_def and_then_def by (simp add: llm_verdict_throws)
next
  assume "matches_any (stringify plan)"
  then obtain m where
    "check_patterns ''Plan'' PROHIBITED_PATTERNS (stringify plan) = Inl (Error GuardrailViolation m)"
    using matches_any_blocks by blast
  then show "\<exists>m. validatePlan stringify validator plan = Inl (Error GuardrailViolation m)"
    unfolding validatePlan_def and_then_def by simp
next
  assume "matches_any scr"
  then obtain m where
    "check_patterns ''Script'' PROHIBITED_PATTERNS scr = Inl (Error GuardrailViolation m)"
    using matches_any_blocks by blast
  then show "\<exists>m. validateScript validator' scr = Inl (Error GuardrailViolation m)"
    unfolding validateScript_def and_then_def by simp
qed

lemma clean_text_clean: "\<not> matches_any clean_text"
  by code_simp

lemma five_categories_all: "\<forall>p\<in>set PROHIBITED_PATTERNS. test (fst p) five_categories"
  by code_simp

lemma five_categories_reordered_all: "\<forall>p\<in>set PROHIBITED_PATTERNS. test (fst p) five_categories_reordered"
  by code_simp

lemma five_categories_matches: "matches_any five_categories"
  by code_simp

text \<open>The theorem with a validator that answers 503, on a clean text and on a text
  with all five categories.\<close>

theorem C4_fail_open_witness:
  "validatePlan identity_stringify unavailable (JString clean_text) = Inr () \<and>
   validateScript unavailable clean_text = Inr () \<and>
   (\<exists>m. validatePlan identity_stringify unavailable (JString five_categories) =
          Inl (Error GuardrailViolation m)) \<and>
   (\<exists>m. validateScript unavailable five_categories = Inl (Error GuardrailViolation m))"
proof -
  have c: "error_class (Error JsError ''503 Service Unavailable'') \<noteq> GuardrailViolation" by simp
  have s1: "identity_stringify (JString clean_text) = clean_text"
    and s2: "identity_stringify (JString five_categories) = five_categories"
    by (simp_all add: identity_stringify_def)
  have u: "\<And>t. unavailable t = ApiThrows (Error JsError ''503 Service Unavailable'')"
    by (simp add: unavailable_def)
  note inst = C4_fail_open [of "Error JsError ''503 Service Unavailable''" identity_stringify _ unavailable _ unavailable]
  have 1: "validatePlan identity_stringify unavailable (JString clean_text) = Inr ()"
    using inst [of "JString clean_text" clean_text] c s1 u clean_text_clean by simp
  have 2: "validateScript unavailable clean_text = Inr ()"
    using inst [of "JString clean_text" clean_text] c u clean_text_clean by simp
  have 3: "\<exists>m. validatePlan identity_stringify unavailable (JString five_categories) =
          Inl (Error GuardrailViolation m)"
    using inst [of "JString five_categories" five_categories] s2 five_categories_matches by simp
  have 4: "\<exists>m. validateScript unavailable five_categories = Inl (Error GuardrailViolation m)"
    using inst [of "JString five_categories" five_categories] five_categories_matches by simp
  from 1 2 3 4 show ?thesis by blast
qed

lemma first_pattern: "PROHIBITED_PATTERNS \<noteq> [] \<and> snd (PROHIBITED_PATTERNS ! 0) = ''Financial figures''"
  by (simp add: PROHIBITED_PATTERNS_def)

text \<open>
  C7. The pattern check scans \<^verbatim>\<open>PROHIBITED_PATTERNS\<close> in its fixed order and
  throws at the first pattern that matches anywhere in the text: the violation names
  the first pattern in scanning order that has a match, and generation is blocked
  whatever the validator would say. On a text with matches of all five categories this
  is "Financial figures", wherever the categories stand in the text; two texts matched
  by the same patterns get the same verdict.
\<close>

theorem C7_first_pattern_in_scanning_order:
  "(i < length PROHIBITED_PATTERNS \<and> test (fst (PROHIBITED_PATTERNS ! i)) t \<and>
      (\<forall>j<i. \<not> test (fst (PROHIBITED_PATTERNS ! j)) t) \<longrightarrow>
        validateScript validator t =
          Inl (Error GuardrailViolation
                (''Script contains prohibited content: '' @ snd (PROHIBITED_PATTERNS ! i))) \<and>
        (stringify plan = t \<longrightarrow>
           validatePlan stringify validator plan =
             Inl (Error GuardrailViolation
                   (''Plan contains prohibited content: '' @ snd (PROHIBITED_PATTERNS ! i))))) \<and>
   ((\<forall>p\<in>set PROHIBITED_PATTERNS. test (fst p) t) \<longrightarrow>
        validateScript validator t =
          Inl (Error GuardrailViolation ''Script contains prohibited content: Financial figures'')) \<and>
   (matches_any t \<and> (\<forall>p\<in>set PROHIBITED_PATTERNS. test (fst p) t = test (fst p) t') \<longrightarrow>
        validateScript validator t = validateScript validator' t')"
proof (intro conjI impI)
  assume a: "i < length PROHIBITED_PATTERNS \<and> test (fst (PROHIBITED_PATTERNS ! i)) t \<and>
      (\<forall>j<i. \<not> test (fst (PROHIBITED_PATTERNS ! j)) t)"
  then show "validateScript validator t =
          Inl (Error GuardrailViolation
                (''Script contains prohibited content: '' @ snd (PROHIBITED_PATTERNS ! i)))"
    unfolding validateScript_def and_then_def
    using check_patterns_first [of i PROHIBITED_PATTERNS t "''Script''"] by simp
  assume "stringify plan = t"
  with a show "validatePlan stringify validator plan =
             Inl (Error GuardrailViolation
                   (''Plan contains prohibited content: '' @ snd (PROHIBITED_PATTERNS ! i)))"
    unfolding validatePlan_def and_then_def
    using check_patterns_first [of i PROHIBITED_PATTERNS t "''Plan''"] by simp
next
  assume a: "\<forall>p\<in>set PROHIBITED_PATTERNS. test (fst p) t"
  have "0 < length PROHIBITED_PATTERNS" using first_pattern by simp
  moreover from this a have "test (fst (PROHIBITED_PATTERNS ! 0)) t"
    using nth_mem by blast
  ultimately have "check_patterns ''Script'' PROHIBITED_PATTERNS t =
      Inl (Error GuardrailViolation
            (''Script'' @ '' contains prohibited content: '' @ snd (PROHIBITED_PATTERNS ! 0)))"
    using check_patterns_first [of 0 PROHIBITED_PATTERNS t "''Script''"] by simp
  then show "validateScript validator t =
          Inl (Error GuardrailViolation ''Script contains prohibited content: Financial figures'')"
    unfolding validateScript_def and_then_def using first_pattern by simp
next
  assume a: "matches_any t \<and> (\<forall>p\<in>set PROHIBITED_PATTERNS. test (fst p) t = test (fst p) t')"
  then obtain m where m: "check_patterns ''Script'' PROHIBITED_PATTERNS t = Inl (Error GuardrailViolation m)"
    using matches_any_blocks by blast
  moreover have "check_patterns ''Script'' PROHIBITED_PATTERNS t = check_patterns ''Script'' PROHIBITED_PATTERNS t'"
    using a check_patterns_same by blast
  ultimately show "validateScript validator t = validateScript validator' t'"
    unfolding validateScript_def and_then_def by simp
qed

text \<open>The theorem on two texts that hold the five categories in different orders.\<close>

theorem C7_first_pattern_in_scanning_order_witness:
  "validateScript approving five_categories =
     Inl (Error GuardrailViolation ''Script contains prohibited content: Financial figures'') \<and>
   validateScript approving five_categories = validateScript unavailable five_categories_reordered \<and>
   validatePlan identity_stringify approving (JString five_categories) =
     Inl (Error GuardrailViolation ''Plan contains prohibited content: Financial figures'')"
proof -
  note inst = C7_first_pattern_in_scanning_order
    [of 0 five_categories approving identity_stringify "JString five_categories"
        five_categories_reordered unavailable]
  have z: "0 < length PROHIBITED_PATTERNS \<and> test (fst (PROHIBITED_PATTERNS ! 0)) five_categories \<and>
      (\<forall>j<0. \<not> test (fst (PROHIBITED_PATTERNS ! j)) five_categories)"
    using five_categories_all first_pattern nth_mem by force
  have s: "identity_stringify (JString five_categories) = five_categories"
    by (simp add: identity_stringify_def)
  have e: "\<forall>p\<in>set PROHIBITED_PATTERNS. test (fst p) five_categories = test (fst p) five_categories_reordered"
    using five_categories_all five_categories_reordered_all by simp
  have 1: "validateScript approving five_categories =
     Inl (Error GuardrailViolation ''Script contains prohibited content: Financial figures'')"
    using inst five_categories_all by blast
  have 2: "validateScript approving five_categories = validateScript unavailable five_categories_reordered"
    using inst five_categories_matches e by blast
  have 3: "validatePlan identity_stringify approving (JString five_categories) =
     Inl (Error GuardrailViolation (''Plan contains prohibited content: '' @ snd (PROHIBITED_PATTERNS ! 0)))"
    using inst z s by blast
  from 1 2 3 first_pattern show ?thesis by simp
qed

text \<open>
  C10. Each of \<^verbatim>\<open>validateExtraInstruction\<close>, \<^verbatim>\<open>validatePlan\<close> and
  \<^verbatim>\<open>validateScript\<close> returns normally or throws a \<^verbatim>\<open>GuardrailViolation\<close>;
  an error of any other class thrown by the classifier or validator call is dropped.
\<close>

theorem C10_only_guardrail_violations_escape:
  "(validateExtraInstruction cl ins = Inr () \<or>
      (\<exists>m. validateExtraInstruction cl ins = Inl (Error GuardrailViolation m))) \<and>
   (validatePlan stringify validator plan = Inr () \<or>
      (\<exists>m. validatePlan stringify validator plan = Inl (Error GuardrailViolation m))) \<and>
   (validateScript validator' scr = Inr () \<or>
      (\<exists>m. validateScript validator' scr = Inl (Error GuardrailViolation m))) \<and>
   (error_class e \<noteq> GuardrailViolation \<longrightarrow>
      validateExtraInstruction (\<lambda>i. ApiThrows e) ins = Inr () \<and>
      llm_verdict (ApiThrows e) = Inr ())"
proof (intro conjI impI)
  show "validateExtraInstruction cl ins = Inr () \<or>
      (\<exists>m. validateExtraInstruction cl ins = Inl (Error GuardrailViolation m))"
  proof (cases "validateExtraInstruction cl ins")
    case (Inl x)
    then show ?thesis using validateExtraInstruction_class [OF Inl] by (cases x) auto
  qed simp
  show "validatePlan stringify validator plan = Inr () \<or>
      (\<exists>m. validatePlan stringify validator plan = Inl (Error GuardrailViolation m))"
  proof (cases "validatePlan stringify validator plan")
    case (Inl x)
    then show ?thesis using validatePlan_class [OF Inl] by (cases x) auto
  qed simp
  show "validateScript validator' scr = Inr () \<or>
      (\<exists>m. validateScript validator' scr = Inl (Error GuardrailViolation m))"
  proof (cases "validateScript validator' scr")
    case (Inl x)
    then show ?thesis using validateScript_class [OF Inl] by (cases x) auto
  qed simp
next
  assume c: "error_class e \<noteq> GuardrailViolation"
  then show "validateExtraInstruction (\<lambda>i. ApiThrows e) ins = Inr ()"
    unfolding validateExtraInstruction_def fail_open_def chat_def and_then_def
    by (simp split: option.splits)
  from c show "llm_verdict (ApiThrows e) = Inr ()" by (rule llm_verdict_throws)
qed

text \<open>The theorem with a call that fails with a TypeError.\<close>

theorem C10_only_guardrail_violations_escape_witness:
  "validateExtraInstruction (\<lambda>i. ApiThrows (Error TypeError ''fetch failed'')) (Some ''be brief'') = Inr () \<and>
   llm_verdict (ApiThrows (Error TypeError ''fetch failed'')) = Inr ()"
proof -
  have "error_class (Error TypeError ''fetch failed'') \<noteq> GuardrailViolation" by simp
  then show ?thesis
    using C10_only_guardrail_violations_escape [of _ "Some ''be brief''" _ _ _ _ _ "Error TypeError ''fetch failed''"]
    by blast
qed

section \<open>Properties of the orchestrator\<close>

lemma update_row_Some:
  "db gid = Some g \<Longrightarrow> update_row gid f db gid = Some (f g)"
  by (simp add: update_row_def)

lemma updateStatus_Some:
  "db gid = Some g \<Longrightarrow>
   \<exists>g'. updateStatus gid st msg db gid = Some g' \<and> status g' = st \<and>
        retry_count g' = retry_count g \<and> script g' = script g"
  by (simp add: updateStatus_def update_row_def)

lemma same_retries_refl: "db gid = Some g \<Longrightarrow> same_retries gid db db"
  by (simp add: same_retries_def)

lemma same_retries_trans:
  "same_retries gid a b \<Longrightarrow> same_retries gid b c \<Longrightarrow> same_retries gid a c"
  by (auto simp: same_retries_def)

lemma same_retries_updateStatus:
  "db gid = Some g \<Longrightarrow> same_retries gid db (updateStatus gid st msg db)"
  by (simp add: same_retries_def updateStatus_def update_row_def)

lemma run_pipeline_retries:
  assumes "db (generation_id params) = Some g"
  shows "same_retries (generation_id params) db (fst (run_pipeline sv params db))"
  using assms unfolding run_pipeline_def same_retries_def
  by (simp add: Let_def updateStatus_def update_row_def split: sum.splits)

lemma run_pipeline_Inl_status:
  assumes "db (generation_id params) = Some g" and "run_pipeline sv params db = (db', Inl e)"
  shows "\<exists>g'. db' (generation_id params) = Some g' \<and> status g' = Processing \<and>
              retry_count g' = retry_count g"
  using assms unfolding run_pipeline_def
  by (auto simp: Let_def updateStatus_def update_row_def split: sum.splits)

lemma run_pipeline_Inr:
  assumes "db (generation_id params) = Some g" and "run_pipeline sv params db = (db', Inr r)"
  shows "\<exists>g' s. db' (generation_id params) = Some g' \<and> r = Some g' \<and> status g' = Rendering \<and>
           script g' = Some s \<and> validateScript (script_validator sv) s = Inr ()"
  using assms unfolding run_pipeline_def
  by (auto simp: Let_def updateStatus_def update_row_def split: sum.splits)

lemma retryGeneration_refused: "retryGeneration gid db = db"
  by (simp add: retryGeneration_def update_status_and_retry_count_def)

lemma handle_failure_retry:
  assumes "db gid = Some g" and "isRetriableError e" and "retry_count g < MAX_RETRIES"
  shows "handle_failure gid e db =
           (db, Inl (Error GenerationError ''Generation failed, retrying...''))"
  using assms by (simp add: handle_failure_def retryGeneration_refused)

lemma handle_failure_fail:
  assumes "db gid = Some g" and "\<not> (isRetriableError e \<and> retry_count g < MAX_RETRIES)"
  shows "snd (handle_failure gid e db) = Inl e \<and>
         (\<exists>g'. fst (handle_failure gid e db) gid = Some g' \<and> status g' = Failed \<and>
               error_message g' = Some (message e) \<and> retry_count g' = retry_count g)"
  using assms
  by (auto simp add: handle_failure_def failGeneration_def update_row_def)

lemma generateTakeaway_Inl:
  "run_pipeline sv params db = (db1, Inl e) \<Longrightarrow>
   generateTakeaway sv params db = handle_failure (generation_id params) e db1"
  by (simp add: generateTakeaway_def)

lemma generateTakeaway_Inr:
  "run_pipeline sv params db = (db1, Inr r) \<Longrightarrow> generateTakeaway sv params db = (db1, Inr r)"
  by (simp add: generateTakeaway_def)

text \<open>The retry branch: the caller gets the "retrying" error, and the row is as the
  \<^verbatim>\<open>try\<close> block left it, in processing and with its old count.\<close>

lemma generateTakeaway_retry:
  assumes "db (generation_id params) = Some g" and "run_pipeline sv params db = (db1, Inl e)"
    and "isRetriableError e" and "retry_count g < MAX_RETRIES"
  shows "snd (generateTakeaway sv params db) = Inl (Error GenerationError ''Generation failed, retrying...'') \<and>
         (\<exists>g'. fst (generateTakeaway sv params db) (generation_id params) = Some g' \<and>
               status g' = Processing \<and> retry_count g' = retry_count g)"
proof -
  obtain g1 where g1: "db1 (generation_id params) = Some g1" "status g1 = Processing"
    "retry_count g1 = retry_count g"
    using run_pipeline_Inl_status [of db params g sv db1 e] assms(1,2) by blast
  show ?thesis
    using handle_failure_retry [of db1 "generation_id params" g1 e] g1 assms(3,4)
      generateTakeaway_Inl [OF assms(2)] by simp
qed

text \<open>The fail branch: status \<^verbatim>\<open>failed\<close> with the message of the error, which is
  rethrown.\<close>

lemma generateTakeaway_fail:
  assumes "db (generation_id params) = Some g" and "run_pipeline sv params db = (db1, Inl e)"
    and "\<not> (isRetriableError e \<and> retry_count g < MAX_RETRIES)"
  shows "snd (generateTakeaway sv params db) = Inl e \<and>
         (\<exists>g'. fst (generateTakeaway sv params db) (generation_id params) = Some g' \<and>
               status g' = Failed \<and> error_message g' = Some (message e) \<and>
               retry_count g' = retry_count g)"
proof -
  obtain g1 where g1: "db1 (generation_id params) = Some g1" "retry_count g1 = retry_count g"
    using run_pipeline_Inl_status [of db params g sv db1 e] assms(1,2) by blast
  show ?thesis
    using handle_failure_fail [of db1 "generation_id params" g1 e] g1 assms(3)
      generateTakeaway_Inl [OF assms(2)] by simp
qed

text \<open>No path of \<^verbatim>\<open>generateTakeaway\<close> changes the stored count.\<close>

lemma generateTakeaway_retry_count:
  assumes "db (generation_id params) = Some g"
  shows "\<exists>g'. fst (generateTakeaway sv params db) (generation_id params) = Some g' \<and>
              retry_count g' = retry_count g"
proof (cases "run_pipeline sv params db")
  case (Pair db1 r)
  show ?thesis
  proof (cases r)
    case (Inl e)
    show ?thesis
    proof (cases "isRetriableError e \<and> retry_count g < MAX_RETRIES")
      case True
      then show ?thesis
        using generateTakeaway_retry [of db params g sv db1 e] Pair Inl assms by auto
    next
      case False
      then show ?thesis
        using generateTakeaway_fail [of db params g sv db1 e] Pair Inl assms by auto
    qed
  next
    case (Inr x)
    then show ?thesis
      using run_pipeline_retries [of db params g sv] Pair assms generateTakeaway_Inr [of sv params db db1 x]
      by (auto simp: same_retries_def)
  qed
qed

lemma step_retry:
  assumes "fails_retriably sv params" and "db (generation_id params) = Some g"
    and "retry_count g < MAX_RETRIES"
  shows "\<exists>g'. fst (generateTakeaway sv params db) (generation_id params) = Some g' \<and>
              status g' = Processing \<and> retry_count g' = retry_count g"
proof -
  obtain e where e: "snd (run_pipeline sv params db) = Inl e" "isRetriableError e"
    using assms(1) unfolding fails_retriably_def by blast
  then have "run_pipeline sv params db = (fst (run_pipeline sv params db), Inl e)"
    by (metis prod.collapse)
  then show ?thesis
    using generateTakeaway_retry [of db params g sv "fst (run_pipeline sv params db)" e] assms(2,3) e(2) by blast
qed

text \<open>However often a run below the retry budget fails with a retriable error, it
  stays in processing with its count unchanged: it never reaches \<^verbatim>\<open>failed\<close>.\<close>

lemma attempts_stay_processing:
  assumes "\<forall>sv\<in>set svs. fails_retriably sv params" and "svs \<noteq> []"
    and "db (generation_id params) = Some g" and "retry_count g < MAX_RETRIES"
  shows "\<exists>g'. attempts svs params db (generation_id params) = Some g' \<and>
              status g' = Processing \<and> retry_count g' = retry_count g"
  using assms
proof (induction svs arbitrary: db g)
  case Nil
  then show ?case by simp
next
  case (Cons sv svs)
  obtain g1 where g1: "fst (generateTakeaway sv params db) (generation_id params) = Some g1"
    "status g1 = Processing" "retry_count g1 = retry_count g"
    using step_retry [of sv params db g] Cons.prems by auto
  show ?case
  proof (cases "svs = []")
    case True
    then show ?thesis using g1 by simp
  next
    case False
    then show ?thesis
      using Cons.IH [of "fst (generateTakeaway sv params db)" g1] Cons.prems g1 by simp
  qed
qed

lemma timeout_retriable: "isRetriableError (Error JsError ''Request timeout'')"
  by code_simp

lemma timeout_pipeline:
  "snd (run_pipeline timeout_services demo_params db) = Inl (Error JsError ''Request timeout'')"
  by (simp add: run_pipeline_def timeout_services_def base_services_def demo_params_def
      demo_customization_def validateExtraInstruction_def retrieveRelevantContext_def
      createEmbedding_def and_then_def Let_def)

lemma timeout_fails_retriably: "fails_retriably timeout_services demo_params"
  unfolding fails_retriably_def using timeout_pipeline timeout_retriable by blast

lemma demo_db_row: "demo_db (generation_id demo_params) = Some queued_row"
  by (simp add: demo_db_def demo_params_def)

text \<open>
  C2 fails on the code in its retry branch. A queued run with \<^verbatim>\<open>retry_count\<close> 0
  whose embedding call times out: the error is retriable and the budget is not used
  up, so the \<^verbatim>\<open>catch\<close> block calls \<^verbatim>\<open>retryGeneration\<close> and throws the "retrying"
  \<^verbatim>\<open>GenerationError\<close>; but the update of \<^verbatim>\<open>retryGeneration\<close> is refused, so the row
  is still in processing with count 0, and it is so after four such failures: the
  count is never incremented, the status is never reset to \<^verbatim>\<open>queued\<close>, and the run
  never reaches \<^verbatim>\<open>failed\<close>.
\<close>

theorem C2_retry_update_refused:
  "snd (generateTakeaway timeout_services demo_params demo_db) =
     Inl (Error GenerationError ''Generation failed, retrying...'') \<and>
   map_option status (fst (generateTakeaway timeout_services demo_params demo_db) ''g1'') =
     Some Processing \<and>
   map_option retry_count (fst (generateTakeaway timeout_services demo_params demo_db) ''g1'') =
     Some 0 \<and>
   map_option status
     (attempts [timeout_services, timeout_services, timeout_services, timeout_services]
        demo_params demo_db ''g1'') = Some Processing \<and>
   map_option retry_count
     (attempts [timeout_services, timeout_services, timeout_services, timeout_services]
        demo_params demo_db ''g1'') = Some 0"
proof -
  have r: "run_pipeline timeout_services demo_params demo_db =
             (fst (run_pipeline timeout_services demo_params demo_db), Inl (Error JsError ''Request timeout''))"
    using timeout_pipeline [of demo_db] by (metis prod.collapse)
  have z: "retry_count queued_row = 0" "retry_count queued_row < MAX_RETRIES"
    by (simp_all add: queued_row_def MAX_RETRIES_def)
  have g: "generation_id demo_params = ''g1''" by (simp add: demo_params_def)
  have one: "snd (generateTakeaway timeout_services demo_params demo_db) =
        Inl (Error GenerationError ''Generation failed, retrying...'') \<and>
      (\<exists>g'. fst (generateTakeaway timeout_services demo_params demo_db) ''g1'' = Some g' \<and>
            status g' = Processing \<and> retry_count g' = 0)"
    using generateTakeaway_retry [of demo_db demo_params queued_row timeout_services
        "fst (run_pipeline timeout_services demo_params demo_db)" "Error JsError ''Request timeout''"]
      demo_db_row r z g timeout_retriable by simp
  have four: "\<exists>g'. attempts [timeout_services, timeout_services, timeout_services, timeout_services]
                    demo_params demo_db ''g1'' = Some g' \<and>
                 status g' = Processing \<and> retry_count g' = 0"
    using attempts_stay_processing
        [of "[timeout_services, timeout_services, timeout_services, timeout_services]"
            demo_params demo_db queued_row]
      demo_db_row z g timeout_fails_retriably by simp
  from one four show ?thesis by auto
qed


lemma default_violations_not_retriable:
  "\<not> isRetriableError (Error GuardrailViolation ''Instruction violates content policy'') \<and>
   \<not> isRetriableError (Error GuardrailViolation ''Content policy violation'')"
  by code_simp







text \<open>
  C5. After \<^verbatim>\<open>generateTakeaway\<close> the row's status is never \<^verbatim>\<open>completed\<close>; and
  when it is \<^verbatim>\<open>rendering\<close>, the stored script is present, \<^verbatim>\<open>validateScript\<close>
  accepted it and none of the five prohibited patterns matches it.
\<close>

theorem C5_rendering_handoff:
  assumes "db (generation_id params) = Some g"
  shows "\<exists>g'. fst (generateTakeaway sv params db) (generation_id params) = Some g' \<and>
           status g' \<noteq> Completed \<and>
           (status g' = Rendering \<longrightarrow>
              (\<exists>s. script g' = Some s \<and> validateScript (script_validator sv) s = Inr () \<and>
                   \<not> matches_any s))"
proof (cases "run_pipeline sv params db")
  case (Pair db1 r)
  show ?thesis
  proof (cases r)
    case (Inl e)
    show ?thesis
    proof (cases "isRetriableError e \<and> retry_count g < MAX_RETRIES")
      case True
      then obtain g' where "fst (generateTakeaway sv params db) (generation_id params) = Some g'"
        "status g' = Processing"
        using generateTakeaway_retry [of db params g sv db1 e] assms Pair Inl by auto
      then show ?thesis by auto
    next
      case False
      then obtain g' where "fst (generateTakeaway sv params db) (generation_id params) = Some g'"
        "status g' = Failed"
        using generateTakeaway_fail [of db params g sv db1 e] assms Pair Inl by auto
      then show ?thesis by auto
    qed
  next
    case (Inr x)
    obtain g' s where "db1 (generation_id params) = Some g'" "status g' = Rendering"
      "script g' = Some s" "validateScript (script_validator sv) s = Inr ()"
      using run_pipeline_Inr [of db params g sv db1 x] assms Pair Inr by blast
    then show ?thesis
      using generateTakeaway_Inr [of sv params db db1 x] Pair Inr validateScript_patterns [of "script_validator sv" s]
      by auto
  qed
qed

text \<open>The theorem on a run in which every call succeeds.\<close>

theorem C5_rendering_handoff_witness:
  "\<exists>g'. fst (generateTakeaway base_services demo_params demo_db) ''g1'' = Some g' \<and>
        status g' = Rendering \<and> script g' = Some ''Hello team.'' \<and>
        validateScript approving ''Hello team.'' = Inr () \<and> \<not> matches_any ''Hello team.''"
proof -
  have s: "map_option status (fst (generateTakeaway base_services demo_params demo_db) ''g1'') = Some Rendering"
    and t: "map_option script (fst (generateTakeaway base_services demo_params demo_db) ''g1'') = Some (Some ''Hello team.'')"
    by code_simp+
  have g: "generation_id demo_params = ''g1''" "script_validator base_services = approving"
    by (simp_all add: demo_params_def base_services_def)
  obtain g' where g': "fst (generateTakeaway base_services demo_params demo_db) ''g1'' = Some g'"
     and r: "status g' = Rendering \<longrightarrow>
              (\<exists>s. script g' = Some s \<and> validateScript approving s = Inr () \<and> \<not> matches_any s)"
    using C5_rendering_handoff [of demo_db demo_params queued_row base_services] demo_db_row g by auto
  from s t g' have "status g' = Rendering" "script g' = Some ''Hello team.''" by auto
  with g' r show ?thesis by auto
qed

section \<open>Properties of the context retriever\<close>

text \<open>
  For theme labels that are not names of members of \<^verbatim>\<open>Object.prototype\<close>, the
  grouping succeeds, the round robin visits every theme once before it visits any
  theme twice, and nothing is lost when the limit covers all candidates.
\<close>

lemma group_chunk_plain:
  assumes "theme c \<notin> set object_prototype_keys"
  shows "group_chunk g c = Inr (AList.update (theme c) (group_of g (theme c) @ [c]) g)"
proof (cases "map_of g (theme c)")
  case None
  then show ?thesis
    using assms
    by (simp add: group_chunk_def get_property_def group_of_def AList.update_conv' AList.update_last)
next
  case (Some cs)
  then show ?thesis
    by (simp add: group_chunk_def get_property_def group_of_def)
qed

lemma set_update_subset:
  "set (AList.update k v al) \<subseteq> insert (k, v) (set al)"
  by (induction al) auto

lemma well_grouped_lookup:
  "well_grouped g \<Longrightarrow> map_of g k = Some cs \<Longrightarrow> cs \<noteq> [] \<and> (\<forall>c\<in>set cs. theme c = k)"
  unfolding well_grouped_def by (auto dest: map_of_SomeD)

lemma well_grouped_push:
  assumes "well_grouped g"
  shows "well_grouped (AList.update (theme c) (group_of g (theme c) @ [c]) g)"
proof -
  have old: "\<forall>x\<in>set (group_of g (theme c)). theme x = theme c"
  proof (cases "map_of g (theme c)")
    case None
    then show ?thesis by (simp add: group_of_def)
  next
    case (Some cs)
    then show ?thesis
      using assms well_grouped_lookup [of g "theme c" cs] by (simp add: group_of_def)
  qed
  have "\<forall>(k, cs)\<in>insert (theme c, group_of g (theme c) @ [c]) (set g).
          cs \<noteq> [] \<and> (\<forall>x\<in>set cs. theme x = k)"
    using assms old unfolding well_grouped_def by auto
  then have "\<forall>(k, cs)\<in>set (AList.update (theme c) (group_of g (theme c) @ [c]) g).
          cs \<noteq> [] \<and> (\<forall>x\<in>set cs. theme x = k)"
    using set_update_subset [of "theme c" "group_of g (theme c) @ [c]" g] by blast
  then show ?thesis
    using assms unfolding well_grouped_def by (simp add: AList.distinct_update)
qed

lemma mset_contents_update:
  "distinct (map fst g) \<Longrightarrow>
   mset (contents (AList.update k (group_of g k @ [c]) g)) = mset (contents g) + {#c#}"
proof (induction g)
  case Nil
  then show ?case by (simp add: contents_def group_of_def)
next
  case (Cons a g)
  obtain k' cs where a: "a = (k', cs)" by (cases a)
  show ?case
  proof (cases "k' = k")
    case True
    then show ?thesis using a by (simp add: contents_def group_of_def)
  next
    case False
    then have "group_of (a # g) k = group_of g k" using a by (simp add: group_of_def)
    then show ?thesis using Cons a False by (simp add: contents_def)
  qed
qed

lemma group_chunks_plain:
  assumes "plain_themes cs" and "well_grouped g"
  shows "\<exists>g'. group_chunks g cs = Inr g' \<and> well_grouped g' \<and>
               fst ` set g' = fst ` set g \<union> theme ` set cs \<and>
               mset (contents g') = mset (contents g) + mset cs"
  using assms
proof (induction cs arbitrary: g)
  case Nil
  then show ?case by simp
next
  case (Cons c cs)
  let ?g1 = "AList.update (theme c) (group_of g (theme c) @ [c]) g"
  have c: "theme c \<notin> set object_prototype_keys" and cs: "plain_themes cs"
    using Cons.prems(1) by (simp_all add: plain_themes_def)
  have step: "group_chunk g c = Inr ?g1" using c by (rule group_chunk_plain)
  have wg: "well_grouped ?g1" using Cons.prems(2) by (rule well_grouped_push)
  obtain g' where g': "group_chunks ?g1 cs = Inr g'" "well_grouped g'"
    "fst ` set g' = fst ` set ?g1 \<union> theme ` set cs"
    "mset (contents g') = mset (contents ?g1) + mset cs"
    using Cons.IH [OF cs wg] by blast
  have "mset (contents ?g1) = mset (contents g) + {#c#}"
    using Cons.prems(2) mset_contents_update unfolding well_grouped_def by blast
  with g' step show ?case
    by (auto simp: AList.dom_update)
qed

lemma sort_key_Nil_iff: "sort_key f xs = [] \<longleftrightarrow> xs = []"
  by (metis length_0_conv length_sort)

lemma well_grouped_sort:
  "well_grouped g \<Longrightarrow> well_grouped (sort_groups g)"
  unfolding well_grouped_def sort_groups_def
  by (auto simp: comp_def case_prod_unfold sort_key_Nil_iff)

lemma keys_sort_groups: "map fst (sort_groups g) = map fst g"
  unfolding sort_groups_def by (induction g) auto

lemma mset_contents_sort: "mset (contents (sort_groups g)) = mset (contents g)"
  unfolding sort_groups_def contents_def by (induction g) auto

lemma mset_object_keys: "mset (object_keys g) = mset (map fst g)"
  unfolding object_keys_def by simp

lemma set_object_keys: "set (object_keys g) = fst ` set g"
  using mset_object_keys [of g] by (metis set_map set_mset_mset)

lemma distinct_object_keys: "distinct (map fst g) \<Longrightarrow> distinct (object_keys g)"
  using mset_object_keys [of g] by (metis mset_eq_imp_distinct_iff)

lemma set_splice_one:
  assumes "distinct ks" and "i < length ks"
  shows "set (splice_one i ks) = set ks - {ks ! i}"
proof -
  have ks: "ks = take i ks @ ks ! i # drop (Suc i) ks"
    using assms(2) by (rule id_take_nth_drop)
  have "distinct (take i ks @ ks ! i # drop (Suc i) ks)" using assms(1) ks by simp
  then have n: "ks ! i \<notin> set (take i ks)" "ks ! i \<notin> set (drop (Suc i) ks)" by auto
  have "set ks = set (take i ks @ ks ! i # drop (Suc i) ks)" using ks by simp
  then have "set ks = set (take i ks) \<union> {ks ! i} \<union> set (drop (Suc i) ks)" by simp
  with n show ?thesis by (auto simp: splice_one_def)
qed

lemma distinct_splice_one:
  assumes "distinct ks"
  shows "distinct (splice_one i ks)"
proof -
  have "set (take i ks) \<inter> set (drop (Suc i) ks) = {}"
    using assms by (simp add: set_take_disj_set_drop_if_distinct)
  then show ?thesis using assms by (simp add: splice_one_def)
qed

lemma drop_splice_one:
  "i < length ks \<Longrightarrow> drop i (splice_one i ks) = drop (Suc i) ks"
  by (simp add: splice_one_def)

lemma set_drop_nth:
  "i < length ks \<Longrightarrow> set (drop i ks) = insert (ks ! i) (set (drop (Suc i) ks))"
  by (metis Cons_nth_drop_Suc list.simps(15))

lemma nth_notin_drop_Suc:
  "distinct ks \<Longrightarrow> i < length ks \<Longrightarrow> ks ! i \<notin> set (drop (Suc i) ks)"
  by (metis Cons_nth_drop_Suc distinct.simps(2) distinct_drop)

lemma breadth_step:
  assumes "finite T" and "R \<subseteq> T" and "k \<in> T" and "k \<notin> D"
    and "T \<subseteq> R \<union> insert k D"
    and "insert k D \<inter> R = {} \<or> T \<subseteq> R"
    and "min n (card T) \<le> card R"
    and "D' = D \<or> D = {}"
  shows "T \<subseteq> insert k R \<union> D' \<and> (D' \<inter> insert k R = {} \<or> T \<subseteq> insert k R) \<and>
         min (Suc n) (card T) \<le> card (insert k R)"
proof -
  have fin: "finite R" using assms(1,2) finite_subset by blast
  have cover: "T \<subseteq> insert k R \<union> D'" using assms(5,8) by auto
  have fresh: "D' \<inter> insert k R = {} \<or> T \<subseteq> insert k R"
    using assms(4,5,6,8) by auto
  have count: "min (Suc n) (card T) \<le> card (insert k R)"
  proof (cases "T \<subseteq> R")
    case True
    then have "insert k R = T" using assms(2,3) by auto
    then show ?thesis by simp
  next
    case False
    then have "k \<notin> R" using assms(6) by auto
    then have "card (insert k R) = Suc (card R)" using fin by simp
    then show ?thesis using assms(7) by auto
  qed
  from cover fresh count show ?thesis by blast
qed

lemma breadth_inv_pushed:
  assumes "breadth_inv T ks i result" and "distinct ks" and "i < length ks"
    and "theme c = ks ! i"
    and "set (drop i' ks') = set (drop (Suc i) ks) \<or> set (drop (Suc i) ks) = {}"
    and "set ks' \<subseteq> set ks"
  shows "breadth_inv T ks' i' (result @ [c])"
proof -
  let ?D = "set (drop (Suc i) ks)"
  let ?R = "theme ` set result"
  have fin: "finite T" and sub: "set ks \<subseteq> T" and R: "?R \<subseteq> T"
    and cover: "T \<subseteq> ?R \<union> set (drop i ks)"
    and fresh: "set (drop i ks) \<inter> ?R = {} \<or> T \<subseteq> ?R"
    and count: "min (length result) (card T) \<le> card ?R"
    using assms(1) unfolding breadth_inv_def by simp_all
  have k: "ks ! i \<in> T" using sub assms(3) nth_mem by blast
  have nk: "ks ! i \<notin> ?D" using assms(2,3) by (rule nth_notin_drop_Suc)
  have dr: "set (drop i ks) = insert (ks ! i) ?D" using assms(3) by (rule set_drop_nth)
  have step: "T \<subseteq> insert (ks ! i) ?R \<union> set (drop i' ks') \<and>
        (set (drop i' ks') \<inter> insert (ks ! i) ?R = {} \<or> T \<subseteq> insert (ks ! i) ?R) \<and>
        min (Suc (length result)) (card T) \<le> card (insert (ks ! i) ?R)"
  proof (rule breadth_step [of T ?R "ks ! i" ?D "length result" "set (drop i' ks')"])
    show "finite T" by (rule fin)
    show "?R \<subseteq> T" by (rule R)
    show "ks ! i \<in> T" by (rule k)
    show "ks ! i \<notin> ?D" by (rule nk)
    show "T \<subseteq> ?R \<union> insert (ks ! i) ?D" using cover dr by simp
    show "insert (ks ! i) ?D \<inter> ?R = {} \<or> T \<subseteq> ?R" using fresh dr by simp
    show "min (length result) (card T) \<le> card ?R" by (rule count)
    show "set (drop i' ks') = ?D \<or> ?D = {}" by (rule assms(5))
  qed
  have R': "theme ` set (result @ [c]) = insert (ks ! i) ?R" using assms(4) by simp
  have len: "length (result @ [c]) = Suc (length result)" by simp
  have sub': "set ks' \<subseteq> T" using assms(6) sub by blast
  have RT: "insert (ks ! i) ?R \<subseteq> T" using R k by blast
  show ?thesis
    unfolding breadth_inv_def R' len
    using fin sub' RT step by blast
qed

lemma breadth_inv_next:
  assumes "breadth_inv T ks i result" and "distinct ks" and "i < length ks"
    and "theme c = ks ! i"
  shows "breadth_inv T ks ((i + 1) mod length ks) (result @ [c])"
proof -
  have "set (drop ((i + 1) mod length ks) ks) = set (drop (Suc i) ks) \<or>
        set (drop (Suc i) ks) = {}"
  proof (cases "Suc i < length ks")
    case True
    then show ?thesis by simp
  next
    case False
    then show ?thesis by simp
  qed
  then show ?thesis using breadth_inv_pushed [OF assms] by simp
qed

lemma breadth_inv_spliced:
  assumes "breadth_inv T ks i result" and "distinct ks" and "i < length ks"
    and "theme c = ks ! i"
  shows "breadth_inv T (splice_one i ks)
           (if length (splice_one i ks) \<le> i then 0 else i) (result @ [c])"
proof -
  let ?ks' = "splice_one i ks"
  have len: "length ?ks' = length ks - 1" using assms(3) by (simp add: length_splice_one)
  have D': "set (drop (if length ?ks' \<le> i then 0 else i) ?ks') = set (drop (Suc i) ks) \<or>
            set (drop (Suc i) ks) = {}"
  proof (cases "length ?ks' \<le> i")
    case True
    then have "drop (Suc i) ks = []" using len by simp
    then show ?thesis by simp
  next
    case False
    then show ?thesis using drop_splice_one [OF assms(3)] by simp
  qed
  have "set ?ks' \<subseteq> set ks" using set_splice_one [OF assms(2,3)] by blast
  with D' show ?thesis using breadth_inv_pushed [OF assms] by blast
qed

lemma rr_inv_next:
  assumes "rr_inv ks i g" and "i < length ks" and "map_of g (ks ! i) = Some (c # r # rs)"
  shows "rr_inv ks ((i + 1) mod length ks) (AList.update (ks ! i) (r # rs) g)"
proof -
  have th: "\<forall>x\<in>set (c # r # rs). theme x = ks ! i"
    using assms unfolding rr_inv_def by (metis nth_mem option.inject)
  have "0 < length ks" using assms(2) by (cases ks) simp_all
  then have "(i + 1) mod length ks < length ks" by (rule mod_less_divisor)
  moreover have "\<forall>k\<in>set ks. \<exists>c' cs'. map_of (AList.update (ks ! i) (r # rs) g) k = Some (c' # cs') \<and>
        (\<forall>x\<in>set (c' # cs'). theme x = k)"
    using assms(1) th unfolding rr_inv_def by (auto simp: AList.update_conv')
  ultimately show ?thesis using assms(1) unfolding rr_inv_def by simp
qed

lemma rr_inv_spliced:
  assumes "rr_inv ks i g" and "i < length ks"
  shows "rr_inv (splice_one i ks) (if length (splice_one i ks) \<le> i then 0 else i)
           (AList.update (ks ! i) v g)"
proof -
  have d: "distinct ks" using assms(1) unfolding rr_inv_def by simp
  have s: "set (splice_one i ks) = set ks - {ks ! i}" using d assms(2) by (rule set_splice_one)
  have "\<forall>k\<in>set (splice_one i ks). \<exists>c' cs'. map_of (AList.update (ks ! i) v g) k = Some (c' # cs') \<and>
        (\<forall>x\<in>set (c' # cs'). theme x = k)"
    using assms(1) s unfolding rr_inv_def by (auto simp: AList.update_conv')
  moreover have "splice_one i ks \<noteq> [] \<longrightarrow>
      (if length (splice_one i ks) \<le> i then 0 else i) < length (splice_one i ks)"
    by auto
  ultimately show ?thesis using d distinct_splice_one unfolding rr_inv_def by blast
qed

lemma rr_breadth:
  "rr_inv ks i g \<Longrightarrow> breadth_inv T ks i result \<Longrightarrow>
   min (nat limit) (card T) \<le> card (theme ` set (round_robin limit ks i g result))"
proof (induction limit ks i g result rule: round_robin.induct)
  case (1 limit ks i g result)
  note inv = "1.prems"(1) and br = "1.prems"(2)
  have fin: "finite T" and cover: "T \<subseteq> theme ` set result \<union> set (drop i ks)"
    and count: "min (length result) (card T) \<le> card (theme ` set result)"
    using br unfolding breadth_inv_def by simp_all
  show ?case
  proof (cases "int (length result) < limit \<and> ks \<noteq> []")
    case False
    then have rr: "round_robin limit ks i g result = result"
      by (subst round_robin.simps) (simp only: if_False)
    show ?thesis
    proof (cases "ks = []")
      case True
      then have "T \<subseteq> theme ` set result" using cover by simp
      then have "card T \<le> card (theme ` set result)" by (simp add: card_mono)
      then show ?thesis using rr by simp
    next
      case ne: False
      then have "nat limit \<le> length result" using False by simp
      then show ?thesis using count rr by simp
    qed
  next
    case True
    then have i: "i < length ks" using inv unfolding rr_inv_def by simp
    have d: "distinct ks" using inv unfolding rr_inv_def by simp
    have ka: "key_at ks i = ks ! i" using i by (simp add: key_at_def)
    obtain c cs where g: "map_of g (ks ! i) = Some (c # cs)" and th: "theme c = ks ! i"
      using inv i unfolding rr_inv_def by (metis list.set_intros(1) nth_mem)
    show ?thesis
    proof (cases "cs = []")
      case cs: True
      let ?ks' = "splice_one i ks"
      let ?i' = "if length ?ks' \<le> i then 0 else i"
      have rr: "round_robin limit ks i g result =
                round_robin limit ?ks' ?i' (AList.update (ks ! i) cs g) (result @ [c])"
        using True g cs ka by (subst round_robin.simps) (simp add: Let_def)
      have inv': "rr_inv ?ks' ?i' (AList.update (ks ! i) cs g)"
        using inv i by (rule rr_inv_spliced)
      have br': "breadth_inv T ?ks' ?i' (result @ [c])"
        using br d i th by (rule breadth_inv_spliced)
      have "min (nat limit) (card T) \<le>
            card (theme ` set (round_robin limit ?ks' ?i' (AList.update (key_at ks i) cs g) (result @ [c])))"
        using "1.IH"(3) [of "key_at ks i" "c # cs" c cs ?ks'] True g cs ka inv' br' by simp
      then show ?thesis using rr ka by simp
    next
      case cs: False
      then obtain r rs where rs: "cs = r # rs" by (cases cs) auto
      let ?i' = "(i + 1) mod length ks"
      have rr: "round_robin limit ks i g result =
                round_robin limit ks ?i' (AList.update (ks ! i) cs g) (result @ [c])"
        using True g cs ka by (subst round_robin.simps) (simp add: Let_def)
      have inv': "rr_inv ks ?i' (AList.update (ks ! i) cs g)"
        using rr_inv_next [of ks i g c r rs] inv i g rs by simp
      have br': "breadth_inv T ks ?i' (result @ [c])"
        using br d i th by (rule breadth_inv_next)
      have "min (nat limit) (card T) \<le>
            card (theme ` set (round_robin limit ks ?i' (AList.update (key_at ks i) cs g) (result @ [c])))"
        using "1.IH"(4) [of "key_at ks i" "c # cs" c cs] True g cs ka inv' br' by simp
      then show ?thesis using rr ka by simp
    qed
  qed
qed

lemma group_of_update:
  "group_of (AList.update k v g) k' = (if k' = k then v else group_of g k')"
  by (simp add: group_of_def AList.update_conv')

lemma pending_append: "pending (xs @ ys) g = pending xs g @ pending ys g"
  by (simp add: pending_def)

lemma pending_update_other:
  "k \<notin> set ks \<Longrightarrow> pending ks (AList.update k v g) = pending ks g"
  by (induction ks) (auto simp: pending_def group_of_update)

lemma mset_pending_split:
  assumes "i < length ks"
  shows "mset (pending ks g) = mset (pending (splice_one i ks) g) + mset (group_of g (ks ! i))"
proof -
  have "ks = take i ks @ [ks ! i] @ drop (Suc i) ks"
    using assms by (simp add: id_take_nth_drop)
  then have "pending ks g = pending (take i ks) g @ pending [ks ! i] g @ pending (drop (Suc i) ks) g"
    by (metis pending_append)
  then show ?thesis by (simp add: splice_one_def pending_append pending_def)
qed

lemma nth_notin_splice_one:
  "distinct ks \<Longrightarrow> i < length ks \<Longrightarrow> ks ! i \<notin> set (splice_one i ks)"
  using set_splice_one by blast

lemma mset_pending_pop:
  assumes "distinct ks" and "i < length ks" and "map_of g (ks ! i) = Some (c # cs)"
  shows "mset (pending ks g) = mset (pending (splice_one i ks) (AList.update (ks ! i) v g)) + mset (c # cs)"
    and "mset (pending ks g) = mset (pending ks (AList.update (ks ! i) cs g)) + {#c#}"
proof -
  let ?ks' = "splice_one i ks"
  have n: "ks ! i \<notin> set ?ks'" using assms(1,2) by (rule nth_notin_splice_one)
  have old: "group_of g (ks ! i) = c # cs" using assms(3) by (simp add: group_of_def)
  have a: "mset (pending ks g) = mset (pending ?ks' g) + mset (c # cs)"
    using mset_pending_split [OF assms(2), of g] old by simp
  show "mset (pending ks g) = mset (pending ?ks' (AList.update (ks ! i) v g)) + mset (c # cs)"
    using a pending_update_other [OF n] by simp
  have "mset (pending ks (AList.update (ks ! i) cs g)) =
        mset (pending ?ks' (AList.update (ks ! i) cs g)) + mset cs"
    using mset_pending_split [OF assms(2), of "AList.update (ks ! i) cs g"]
    by (simp add: group_of_update)
  then have "mset (pending ks (AList.update (ks ! i) cs g)) = mset (pending ?ks' g) + mset cs"
    using pending_update_other [OF n] by simp
  with a show "mset (pending ks g) = mset (pending ks (AList.update (ks ! i) cs g)) + {#c#}"
    by simp
qed

lemma rr_all:
  "rr_inv ks i g \<Longrightarrow> int (length result + length (pending ks g)) \<le> limit \<Longrightarrow>
   mset (round_robin limit ks i g result) = mset result + mset (pending ks g)"
proof (induction limit ks i g result rule: round_robin.induct)
  case (1 limit ks i g result)
  note inv = "1.prems"(1) and few = "1.prems"(2)
  show ?case
  proof (cases "int (length result) < limit \<and> ks \<noteq> []")
    case False
    then have rr: "round_robin limit ks i g result = result"
      by (subst round_robin.simps) (simp only: if_False)
    have "pending ks g = []"
    proof (cases "ks = []")
      case True
      then show ?thesis by (simp add: pending_def)
    next
      case ne: False
      then have "limit \<le> int (length result)" using False by simp
      then have "length (pending ks g) = 0" using few by linarith
      then show ?thesis by simp
    qed
    then show ?thesis using rr by simp
  next
    case True
    then have i: "i < length ks" using inv unfolding rr_inv_def by simp
    have d: "distinct ks" using inv unfolding rr_inv_def by simp
    have ka: "key_at ks i = ks ! i" using i by (simp add: key_at_def)
    obtain c cs where g: "map_of g (ks ! i) = Some (c # cs)"
      using inv i unfolding rr_inv_def by (metis nth_mem)
    show ?thesis
    proof (cases "cs = []")
      case cs: True
      let ?ks' = "splice_one i ks"
      let ?i' = "if length ?ks' \<le> i then 0 else i"
      let ?g' = "AList.update (ks ! i) cs g"
      have rr: "round_robin limit ks i g result = round_robin limit ?ks' ?i' ?g' (result @ [c])"
        using True g cs ka by (subst round_robin.simps) (simp add: Let_def)
      have inv': "rr_inv ?ks' ?i' ?g'" using inv i by (rule rr_inv_spliced)
      have m: "mset (pending ks g) = mset (pending ?ks' ?g') + {#c#}"
        using mset_pending_pop(1) [OF d i g, of cs] cs by simp
      then have "size (mset (pending ks g)) = size (mset (pending ?ks' ?g') + {#c#})" by simp
      then have "length (pending ks g) = Suc (length (pending ?ks' ?g'))" by simp
      then have few': "int (length (result @ [c]) + length (pending ?ks' ?g')) \<le> limit"
        using few by simp
      have "mset (round_robin limit ?ks' ?i' (AList.update (key_at ks i) cs g) (result @ [c])) =
            mset (result @ [c]) + mset (pending ?ks' (AList.update (key_at ks i) cs g))"
        using "1.IH"(3) [of "key_at ks i" "c # cs" c cs ?ks'] True g cs ka inv' few' by simp
      then show ?thesis using rr ka m by simp
    next
      case cs: False
      then obtain r rs where rs: "cs = r # rs" by (cases cs) auto
      let ?i' = "(i + 1) mod length ks"
      let ?g' = "AList.update (ks ! i) cs g"
      have rr: "round_robin limit ks i g result = round_robin limit ks ?i' ?g' (result @ [c])"
        using True g cs ka by (subst round_robin.simps) (simp add: Let_def)
      have inv': "rr_inv ks ?i' ?g'"
        using rr_inv_next [of ks i g c r rs] inv i g rs by simp
      have m: "mset (pending ks g) = mset (pending ks ?g') + {#c#}"
        using d i g by (rule mset_pending_pop(2))
      then have "size (mset (pending ks g)) = size (mset (pending ks ?g') + {#c#})" by simp
      then have "length (pending ks g) = Suc (length (pending ks ?g'))" by simp
      then have few': "int (length (result @ [c]) + length (pending ks ?g')) \<le> limit"
        using few by simp
      have "mset (round_robin limit ks ?i' (AList.update (key_at ks i) cs g) (result @ [c])) =
            mset (result @ [c]) + mset (pending ks (AList.update (key_at ks i) cs g))"
        using "1.IH"(4) [of "key_at ks i" "c # cs" c cs] True g cs ka inv' few' by simp
      then show ?thesis using rr ka m by simp
    qed
  qed
qed

lemma group_of_keys:
  "distinct (map fst g) \<Longrightarrow> map (group_of g) (map fst g) = map snd g"
  by (induction g) (auto simp: group_of_def rev_image_eqI)

lemma mset_concat_map:
  "mset (concat (map f zs)) = \<Sum>\<^sub># (image_mset (\<lambda>z. mset (f z)) (mset zs))"
  by (induction zs) simp_all

lemma mset_pending_keys:
  assumes "distinct (map fst g)" and "mset ks = mset (map fst g)"
  shows "mset (pending ks g) = mset (contents g)"
proof -
  have "mset (pending ks g) = \<Sum>\<^sub># (image_mset (\<lambda>k. mset (group_of g k)) (mset ks))"
    unfolding pending_def by (rule mset_concat_map)
  also have "\<dots> = \<Sum>\<^sub># (image_mset (\<lambda>k. mset (group_of g k)) (mset (map fst g)))"
    by (simp only: assms(2))
  also have "\<dots> = mset (concat (map (group_of g) (map fst g)))"
    by (rule mset_concat_map [symmetric])
  also have "\<dots> = mset (contents g)"
    by (simp only: group_of_keys [OF assms(1)] contents_def)
  finally show ?thesis .
qed

lemma well_grouped_Nil: "well_grouped []"
  by (simp add: well_grouped_def)

lemma well_grouped_rr_inv:
  assumes "well_grouped g"
  shows "rr_inv (object_keys g) 0 g"
proof -
  have d: "distinct (map fst g)" using assms unfolding well_grouped_def by simp
  have "\<forall>k\<in>set (object_keys g). \<exists>c cs. map_of g k = Some (c # cs) \<and> (\<forall>x\<in>set (c # cs). theme x = k)"
  proof
    fix k assume "k \<in> set (object_keys g)"
    then have "k \<in> fst ` set g" using set_object_keys by blast
    then obtain v where v: "(k, v) \<in> set g" by auto
    then have m: "map_of g k = Some v" using d by (simp add: map_of_is_SomeI)
    then have "v \<noteq> [] \<and> (\<forall>c\<in>set v. theme c = k)" using assms well_grouped_lookup by blast
    then show "\<exists>c cs. map_of g k = Some (c # cs) \<and> (\<forall>x\<in>set (c # cs). theme x = k)"
      using m by (cases v) auto
  qed
  moreover have "object_keys g \<noteq> [] \<longrightarrow> 0 < length (object_keys g)" by simp
  ultimately show ?thesis
    using distinct_object_keys [OF d] unfolding rr_inv_def by blast
qed

lemma breadth_inv_initial: "breadth_inv (set ks) ks 0 []"
  unfolding breadth_inv_def by simp

lemma diversify_plain:
  assumes "plain_themes cs"
  shows "\<exists>out. diversifyByTheme cs limit = Inr out \<and>
           min (nat limit) (card (theme ` set cs)) \<le> card (theme ` set out) \<and>
           (int (length cs) \<le> limit \<longrightarrow> mset out = mset cs)"
proof -
  obtain g where g: "group_chunks [] cs = Inr g" "well_grouped g"
    "fst ` set g = theme ` set cs" "mset (contents g) = mset cs"
    using group_chunks_plain [OF assms well_grouped_Nil] by (auto simp: contents_def)
  let ?s = "sort_groups g"
  let ?ks = "object_keys ?s"
  let ?out = "round_robin limit ?ks 0 ?s []"
  have ws: "well_grouped ?s" using g(2) by (rule well_grouped_sort)
  have ds: "distinct (map fst ?s)" using ws unfolding well_grouped_def by simp
  have keys: "set ?ks = theme ` set cs"
    using set_object_keys [of ?s] keys_sort_groups [of g] g(3) by (metis set_map)
  have inv: "rr_inv ?ks 0 ?s" using ws by (rule well_grouped_rr_inv)
  have out: "diversifyByTheme cs limit = Inr ?out"
    using g(1) by (simp add: diversifyByTheme_def Let_def)
  have breadth: "min (nat limit) (card (theme ` set cs)) \<le> card (theme ` set ?out)"
    using rr_breadth [OF inv breadth_inv_initial, of limit] keys by simp
  have pend: "mset (pending ?ks ?s) = mset cs"
    using mset_pending_keys [OF ds mset_object_keys] mset_contents_sort [of g] g(4) by simp
  have "int (length cs) \<le> limit \<longrightarrow> mset ?out = mset cs"
  proof
    assume few: "int (length cs) \<le> limit"
    have "size (mset (pending ?ks ?s)) = size (mset cs)" using pend by simp
    then have "length (pending ?ks ?s) = length cs" by simp
    then have "int (length ([]::RAGChunk list) + length (pending ?ks ?s)) \<le> limit"
      using few by simp
    then have "mset ?out = mset [] + mset (pending ?ks ?s)"
      using rr_all [OF inv] by blast
    then show "mset ?out = mset cs" using pend by simp
  qed
  with out breadth show ?thesis by blast
qed

lemma diversify_three_topics:
  assumes "plain_themes cs" and "3 \<le> card (theme ` set cs)" and "3 \<le> limit"
  shows "\<exists>out. diversifyByTheme cs limit = Inr out \<and> 3 \<le> card (theme ` set out)"
proof -
  obtain out where out: "diversifyByTheme cs limit = Inr out"
    "min (nat limit) (card (theme ` set cs)) \<le> card (theme ` set out)"
    using diversify_plain [OF assms(1), of limit] by blast
  have "3 \<le> min (nat limit) (card (theme ` set cs))" using assms(2,3) by simp
  with out show ?thesis by (meson order_trans)
qed

lemma naive_cut_breadth:
  "card (theme ` set (take n cs)) \<le> min n (card (theme ` set cs))"
proof -
  have "card (theme ` set (take n cs)) \<le> card (set (take n cs))"
    by (simp add: card_image_le)
  also have "\<dots> \<le> length (take n cs)" by (rule card_length)
  also have "\<dots> \<le> n" by simp
  finally have a: "card (theme ` set (take n cs)) \<le> n" .
  have "theme ` set (take n cs) \<subseteq> theme ` set cs" by (meson image_mono set_take_subset)
  then have "card (theme ` set (take n cs)) \<le> card (theme ` set cs)"
    by (simp add: card_mono)
  with a show ?thesis by simp
qed

lemma diversify_not_worse:
  assumes "plain_themes cs"
  shows "\<exists>out. diversifyByTheme cs limit = Inr out \<and>
           card (theme ` set (take (nat limit) cs)) \<le> card (theme ` set out)"
proof -
  obtain out where out: "diversifyByTheme cs limit = Inr out"
    "min (nat limit) (card (theme ` set cs)) \<le> card (theme ` set out)"
    using diversify_plain [OF assms, of limit] by blast
  then show ?thesis using naive_cut_breadth [of "nat limit" cs] by (meson order_trans)
qed

lemma group_chunks_keys:
  assumes "plain_themes cs"
  shows "\<exists>g'. group_chunks g cs = Inr g' \<and>
              map fst g' = map fst g @ filter (\<lambda>k. k \<notin> set (map fst g)) (first_seen (map theme cs))"
  using assms
proof (induction cs arbitrary: g)
  case Nil
  then show ?case by simp
next
  case (Cons c cs)
  let ?g1 = "AList.update (theme c) (group_of g (theme c) @ [c]) g"
  have c: "theme c \<notin> set object_prototype_keys" and cs: "plain_themes cs"
    using Cons.prems by (simp_all add: plain_themes_def)
  have step: "group_chunk g c = Inr ?g1" using c by (rule group_chunk_plain)
  obtain g' where g': "group_chunks ?g1 cs = Inr g'"
    "map fst g' = map fst ?g1 @ filter (\<lambda>k. k \<notin> set (map fst ?g1)) (first_seen (map theme cs))"
    using Cons.IH [OF cs, of ?g1] by blast
  have "map fst g' = map fst g @ filter (\<lambda>k. k \<notin> set (map fst g)) (first_seen (map theme (c # cs)))"
  proof (cases "theme c \<in> set (map fst g)")
    case True
    then have k1: "map fst ?g1 = map fst g" by (simp add: AList.update_keys)
    have "filter (\<lambda>k. k \<notin> set (map fst g)) (filter (\<lambda>y. y \<noteq> theme c) (first_seen (map theme cs))) =
          filter (\<lambda>k. k \<notin> set (map fst g)) (first_seen (map theme cs))"
      using True by (auto intro: filter_cong)
    then show ?thesis using g'(2) k1 True by simp
  next
    case False
    then have k1: "map fst ?g1 = map fst g @ [theme c]" by (simp add: AList.update_keys)
    have "filter (\<lambda>k. k \<notin> set (map fst g @ [theme c])) (first_seen (map theme cs)) =
          filter (\<lambda>k. k \<notin> set (map fst g)) (filter (\<lambda>y. y \<noteq> theme c) (first_seen (map theme cs)))"
      by (auto intro: filter_cong)
    then show ?thesis using g'(2) k1 False by simp
  qed
  with g'(1) step show ?case by simp
qed

lemma object_keys_insertion_order:
  "\<forall>k\<in>set (map fst g). \<not> is_array_index k \<Longrightarrow> object_keys g = map fst g"
  unfolding object_keys_def by (simp add: filter_empty_conv)

lemma set_first_seen: "set (first_seen xs) = set xs"
  by (induction xs) auto

lemma diversify_group_order:
  assumes "plain_themes cs" and "\<forall>c\<in>set cs. \<not> is_array_index (theme c)"
  shows "\<exists>g. group_chunks [] cs = Inr g \<and>
             object_keys (sort_groups g) = first_seen (map theme cs)"
proof -
  obtain g where g: "group_chunks [] cs = Inr g" "map fst g = first_seen (map theme cs)"
    using group_chunks_keys [OF assms(1), of "[]"] by auto
  have "\<forall>k\<in>set (map fst (sort_groups g)). \<not> is_array_index k"
    using g(2) assms(2) keys_sort_groups [of g] set_first_seen [of "map theme cs"] by auto
  then have "object_keys (sort_groups g) = map fst (sort_groups g)"
    by (rule object_keys_insertion_order)
  with g show ?thesis by (simp add: keys_sort_groups)
qed

lemma no_content_not_retriable:
  "\<not> isRetriableError (Error JsError ''No relevant content found for this query'')"
  by code_simp

lemma retrieve_no_candidates:
  assumes "createEmbedding (emb (buildSemanticQuery p f cu)) = Inr v"
    and "srch v SIMILARITY_THRESHOLD (topK * 2) = RpcData None \<or>
         srch v SIMILARITY_THRESHOLD (topK * 2) = RpcData (Some [])"
  shows "retrieveRelevantContext emb srch p f cu topK =
           Inl (Error JsError ''No relevant content found for this query'')"
  using assms unfolding retrieveRelevantContext_def and_then_def by (auto simp: Let_def)

lemma retrieve_few_candidates:
  assumes "createEmbedding (emb (buildSemanticQuery p f cu)) = Inr v"
    and "srch v SIMILARITY_THRESHOLD (topK * 2) = RpcData (Some cs)"
    and "cs \<noteq> []" and "int (length cs) \<le> topK" and "plain_themes cs"
  shows "\<exists>ctx. retrieveRelevantContext emb srch p f cu topK = Inr ctx \<and>
               mset (chunks ctx) = mset cs"
proof -
  obtain out where out: "diversifyByTheme cs topK = Inr out" "mset out = mset cs"
    using diversify_plain [OF assms(5), of topK] assms(4) by blast
  then show ?thesis
    using assms(1,2,3) unfolding retrieveRelevantContext_def and_then_def
    by (simp add: Let_def)
qed

lemma no_candidates_terminal:
  assumes "db (generation_id params) = Some g"
    and "validateExtraInstruction (classifier sv) (extra_instruction (customization params)) = Inr ()"
    and "createEmbedding (embedder sv (buildSemanticQuery (user_profile params) (format params)
            (customization params))) = Inr v"
    and "match_transcript_chunks sv v SIMILARITY_THRESHOLD (TOP_K_CHUNKS * 2) = RpcData None \<or>
         match_transcript_chunks sv v SIMILARITY_THRESHOLD (TOP_K_CHUNKS * 2) = RpcData (Some [])"
  shows "snd (generateTakeaway sv params db) =
           Inl (Error JsError ''No relevant content found for this query'') \<and>
         (\<exists>g'. fst (generateTakeaway sv params db) (generation_id params) = Some g' \<and>
               status g' = Failed \<and>
               error_message g' = Some ''No relevant content found for this query'' \<and>
               retry_count g' = retry_count g)"
proof -
  let ?e = "Error JsError ''No relevant content found for this query''"
  have r: "retrieveRelevantContext (embedder sv) (match_transcript_chunks sv) (user_profile params)
             (format params) (customization params) TOP_K_CHUNKS = Inl ?e"
    using assms(3,4) by (rule retrieve_no_candidates)
  have "snd (run_pipeline sv params db) = Inl ?e"
    using assms(2) r unfolding run_pipeline_def by (simp add: Let_def)
  then have p: "run_pipeline sv params db = (fst (run_pipeline sv params db), Inl ?e)"
    by (metis prod.collapse)
  show ?thesis
    using generateTakeaway_fail [of db params g sv "fst (run_pipeline sv params db)" ?e]
      assms(1) p no_content_not_retriable by simp
qed

lemmas diversify_eval =
  diversifyByTheme_def sample_chunk_def group_chunk_def get_property_def
  object_prototype_keys_def sort_groups_def object_keys_def is_array_index_def is_digit_def
  decimal_value_def round_robin.simps key_at_def splice_one_def

text \<open>The guarantee at work on three candidates of three plain themes.\<close>

lemma diversify_three_topics_example:
  "\<exists>out. diversifyByTheme
           [sample_chunk ''c1'' ''Strategy'' (9 / 10), sample_chunk ''c2'' ''Pricing'' (85 / 100),
            sample_chunk ''c3'' ''Growth'' (8 / 10)] 3 = Inr out \<and>
         3 \<le> card (theme ` set out)"
proof (rule diversify_three_topics)
  show "plain_themes [sample_chunk ''c1'' ''Strategy'' (9 / 10),
          sample_chunk ''c2'' ''Pricing'' (85 / 100), sample_chunk ''c3'' ''Growth'' (8 / 10)]"
    by (simp add: plain_themes_def sample_chunk_def object_prototype_keys_def)
  show "3 \<le> card (theme ` set [sample_chunk ''c1'' ''Strategy'' (9 / 10),
          sample_chunk ''c2'' ''Pricing'' (85 / 100), sample_chunk ''c3'' ''Growth'' (8 / 10)])"
    by (simp add: sample_chunk_def)
  show "(3::int) \<le> 3" by simp
qed

text \<open>
  C1 fails on the code for a theme label that is the name of a member of
  \<^verbatim>\<open>Object.prototype\<close>. Three candidates with the three distinct themes
  "Strategy", "constructor" and "Growth" and the limit 3: \<^verbatim>\<open>themeGroups["constructor"]\<close>
  reads the inherited constructor function, which is truthy, so no array is created
  and the call of \<^verbatim>\<open>push\<close> throws a TypeError; there is no output with three topics.
\<close>

theorem C1_prototype_key_theme:
  "length colliding_chunks = 3 \<and> distinct (map theme colliding_chunks) \<and>
   diversifyByTheme colliding_chunks 3 =
     Inl (Error TypeError ''themeGroups[chunk.theme].push is not a function'')"
  by (simp add: colliding_chunks_def diversify_eval)

text \<open>
  C8 fails on the code for a theme label that is an array index. The candidates have
  the themes "Strategy" and "2025", first seen in that order and ordered by similarity;
  \<^verbatim>\<open>Object.keys\<close> lists "2025" first, so the output starts with the chunk of
  "2025", and with the limit 1 it is that chunk alone.
\<close>

theorem C8_numeric_theme_first:
  "map theme numeric_chunks = [''Strategy'', ''2025''] \<and>
   diversifyByTheme numeric_chunks 2 =
     Inr [sample_chunk ''c2'' ''2025'' (8 / 10), sample_chunk ''c1'' ''Strategy'' (9 / 10)] \<and>
   diversifyByTheme numeric_chunks 1 = Inr [sample_chunk ''c2'' ''2025'' (8 / 10)]"
  by (simp add: numeric_chunks_def diversify_eval)

text \<open>
  C9 fails on the code when the similarity search returns a single candidate (fewer
  than the ten asked for) whose theme is "constructor": \<^verbatim>\<open>retrieveRelevantContext\<close>
  throws the TypeError of \<^verbatim>\<open>diversifyByTheme\<close> instead of returning the candidate,
  and the run is marked \<^verbatim>\<open>failed\<close>.
\<close>

theorem C9_single_candidate_throws:
  "retrieveRelevantContext (embedder constructor_services)
     (match_transcript_chunks constructor_services) demo_profile Video demo_customization
     TOP_K_CHUNKS =
     Inl (Error TypeError ''themeGroups[chunk.theme].push is not a function'') \<and>
   snd (generateTakeaway constructor_services demo_params demo_db) =
     Inl (Error TypeError ''themeGroups[chunk.theme].push is not a function'') \<and>
   map_option status (fst (generateTakeaway constructor_services demo_params demo_db) ''g1'') =
     Some Failed"
  by code_simp

end
